theory Spec2Isabelle
  imports
    Complex_Main
    "HOL-Library.Char_ord"
    "HOL-Library.List_Lexorder"
    "HOL-Library.Product_Lexorder"
begin

section \<open>Strings\<close>

text \<open>
  The scripts work on Python \<open>str\<close> values. A \<^typ>\<open>char\<close> stands for one code point
  below 256 and a \<^typ>\<open>string\<close> for a Python string over these code points. A value that
  may be Python's \<open>None\<close> is a \<^typ>\<open>string option\<close>.
\<close>

definition is_space :: "char \<Rightarrow> bool" where
  \<comment> \<open>\<open>str.isspace\<close> on one code point below 256: TAB, LF, VT, FF, CR, FS, GS, RS, US,
      SPACE, NEL (0x85) and NBSP (0xA0). \<open>str.strip()\<close> and the pattern \<open>\s\<close> use it.\<close>
  "is_space c = (of_char c \<in> {9, 10, 11, 12, 13, 28, 29, 30, 31, 32, 133, 160 :: nat})"

definition strip :: "string \<Rightarrow> string" where
  \<comment> \<open>\<open>s.strip()\<close>: leading and trailing whitespace removed.\<close>
  "strip s = rev (dropWhile is_space (rev (dropWhile is_space s)))"

definition or_empty :: "string option \<Rightarrow> string" where
  \<comment> \<open>\<open>(x or "")\<close> for \<open>x\<close> a string or \<open>None\<close>.\<close>
  "or_empty x = (case x of None \<Rightarrow> [] | Some s \<Rightarrow> s)"

definition or_default :: "string \<Rightarrow> string \<Rightarrow> string" where
  \<comment> \<open>\<open>(s or d)\<close> for a string \<open>s\<close>: the empty string is falsy.\<close>
  "or_default s d = (if s = [] then d else s)"

section \<open>Field normaliser: \<open>trim_brackets\<close> (build\_dashboard\_data.py)\<close>

text \<open>
  \<open>re.sub(r"\[[^\]]*\]", "", out)\<close>: one left-to-right pass. At an opening bracket that
  has a closing bracket somewhere after it, the match runs to the first closing bracket
  (the class \<open>[^\]]\<close> accepts every other character, opening brackets and newlines
  included) and is deleted; the scan goes on behind it. Every other character is copied.
\<close>

function re_sub_brackets :: "string \<Rightarrow> string" where
  "re_sub_brackets [] = []"
| "re_sub_brackets (c # cs) =
     (if c = CHR ''['' \<and> CHR '']'' \<in> set cs
      then re_sub_brackets (tl (dropWhile (\<lambda>x. x \<noteq> CHR '']'') cs))
      else c # re_sub_brackets cs)"
  by pat_completeness auto
termination
proof (relation "measure length")
  fix c :: char and cs :: string
  have "length (dropWhile (\<lambda>x. x \<noteq> CHR '']'') cs) \<le> length cs"
    by (rule length_dropWhile_le)
  then show "(tl (dropWhile (\<lambda>x. x \<noteq> CHR '']'') cs), c # cs) \<in> measure length"
    by simp
qed simp_all

text \<open>
  The loop \<open>while "[" in out: out = re.sub(...)\<close>. It may run forever, so its model
  returns \<open>None\<close> when the loop does not end.
\<close>

partial_function (option) trim_loop :: "string \<Rightarrow> string option" where
  "trim_loop out =
     (if CHR ''['' \<in> set out then trim_loop (re_sub_brackets out) else Some out)"

fun trim_brackets :: "string option \<Rightarrow> string option" where
  "trim_brackets None = Some []"
| "trim_brackets (Some s) = map_option strip (trim_loop (strip (or_default s [])))"

text \<open>
  \<open>strip_brackets\<close> of build\_quant\_tsv.py: the same substitution, once, then \<open>strip\<close>.
\<close>

definition strip_brackets :: "string \<Rightarrow> string" where
  "strip_brackets s = strip (re_sub_brackets s)"

text \<open>
  Input in which the bracket groups stand side by side: every opening bracket is closed
  before the next one opens, and no closing bracket stands alone. The flag tells whether
  the scan is inside a group.
\<close>

fun flat_brackets :: "bool \<Rightarrow> string \<Rightarrow> bool" where
  "flat_brackets inside [] = (\<not> inside)"
| "flat_brackets inside (c # cs) =
     (if c = CHR ''['' then \<not> inside \<and> flat_brackets True cs
      else if c = CHR '']'' then inside \<and> flat_brackets False cs
      else flat_brackets inside cs)"

section \<open>Rows of the CSV files\<close>

text \<open>
  A row of \<open>csv.DictReader\<close> is a dictionary from column names to values; a column of
  the header that a short line does not reach holds \<open>None\<close>. \<open>row.get(col)\<close> is \<open>None\<close>
  for an absent column too.
\<close>

type_synonym row = "string \<rightharpoonup> string option"

definition get :: "row \<Rightarrow> string \<Rightarrow> string option" where
  "get r col = (case r col of None \<Rightarrow> None | Some v \<Rightarrow> v)"

definition get_default :: "row \<Rightarrow> string \<Rightarrow> string \<Rightarrow> string option" where
  \<comment> \<open>\<open>row.get(col, d)\<close> with a string default.\<close>
  "get_default r col d = (case r col of None \<Rightarrow> Some d | Some v \<Rightarrow> v)"

section \<open>Coordinate parser: \<open>parse_lat_lon\<close>\<close>

text \<open>
  A Python float is modelled by its sign and its magnitude, so that \<open>-0.0\<close> and \<open>0.0\<close>
  are two values that compare equal, as in Python; an infinity has a sign only. NaN is
  not modelled (no decimal text reads as NaN).
\<close>

datatype pyfloat = PyFloat (negative: bool) (magnitude: rat) | PyInf (negative: bool)

definition fval :: "pyfloat \<Rightarrow> rat" where
  \<comment> \<open>the number a finite float stands for; Python's \<open>==\<close> and \<open><\<close> compare these\<close>
  "fval x = (if negative x then - magnitude x else magnitude x)"

definition below :: "pyfloat \<Rightarrow> rat \<Rightarrow> bool" where
  \<comment> \<open>\<open>value < c\<close>\<close>
  "below x c = (case x of PyFloat n m \<Rightarrow> fval x < c | PyInf n \<Rightarrow> n)"

definition above :: "pyfloat \<Rightarrow> rat \<Rightarrow> bool" where
  \<comment> \<open>\<open>value > c\<close>\<close>
  "above x c = (case x of PyFloat n m \<Rightarrow> c < fval x | PyInf n \<Rightarrow> \<not> n)"

definition fabs :: "pyfloat \<Rightarrow> pyfloat" where
  "fabs x = (case x of PyFloat n m \<Rightarrow> PyFloat False m | PyInf n \<Rightarrow> PyInf False)"

definition fneg :: "pyfloat \<Rightarrow> pyfloat" where
  "fneg x = (case x of PyFloat n m \<Rightarrow> PyFloat (\<not> n) m | PyInf n \<Rightarrow> PyInf (\<not> n))"

definition is_digit :: "char \<Rightarrow> bool" where
  \<comment> \<open>the pattern \<open>\d\<close> on a code point below 256\<close>
  "is_digit c = (48 \<le> (of_char c :: nat) \<and> (of_char c :: nat) \<le> 57)"

definition nat_of_digits :: "string \<Rightarrow> nat" where
  "nat_of_digits ds = foldl (\<lambda>a c. 10 * a + (of_char c - 48)) 0 ds"

text \<open>
  \<open>float\<close> reads decimal text as the nearest double, a tie going to the even mantissa. A
  double is \<open>m * 2 ^ e\<close> with \<open>m < 2 ^ 53\<close> and \<open>e \<ge> -1074\<close>; what rounds to \<open>2 ^ 1024\<close> or
  more is an infinity.
\<close>

fun bit_length :: "nat \<Rightarrow> nat" where
  "bit_length n = (if n = 0 then 0 else Suc (bit_length (n div 2)))"

definition floor_log2 :: "nat \<Rightarrow> nat \<Rightarrow> int" where
  \<comment> \<open>the integer \<open>k\<close> with \<open>2 ^ k \<le> n / d < 2 ^ (k + 1)\<close>, for positive \<open>n\<close> and \<open>d\<close>\<close>
  "floor_log2 n d =
     (let k = int (bit_length n) - int (bit_length d)
      in if (if 0 \<le> k then d * 2 ^ nat k \<le> n else d \<le> n * 2 ^ nat (- k)) then k else k - 1)"

definition round_half_even :: "nat \<Rightarrow> nat \<Rightarrow> nat" where
  \<comment> \<open>the integer nearest to \<open>a / b\<close>, the even one of two that are equally near\<close>
  "round_half_even a b =
     (let q = a div b; r = a mod b
      in if 2 * r < b then q else if b < 2 * r then q + 1
         else if even q then q else q + 1)"

definition double_of_fraction :: "nat \<Rightarrow> nat \<Rightarrow> rat option" where
  \<comment> \<open>the magnitude of the double nearest to \<open>n / d\<close>; \<open>None\<close> for an infinity\<close>
  "double_of_fraction n d =
     (if n = 0 then Some 0
      else
        let e = max (floor_log2 n d - 52) (- 1074);
            m = (if 0 \<le> e then round_half_even n (d * 2 ^ nat e)
                 else round_half_even (n * 2 ^ nat (- e)) d);
            r = (if 0 \<le> e then of_nat m * 2 ^ nat e else of_nat m / 2 ^ nat (- e))
        in if 2 ^ 1024 \<le> r then None else Some r)"

definition float_of_decimal :: "bool \<Rightarrow> string \<Rightarrow> string \<Rightarrow> pyfloat" where
  \<comment> \<open>\<open>float(g)\<close> for a group \<open>g\<close> of the form \<open>-?\d+(\.\d+)?\<close>, given as its sign, its
      integer digits and its fraction digits. \<open>float\<close> cannot raise on such a group.\<close>
  "float_of_decimal neg ip fp =
     (case double_of_fraction (nat_of_digits (ip @ fp)) (10 ^ length fp) of
        None \<Rightarrow> PyInf neg
      | Some m \<Rightarrow> PyFloat neg m)"

definition lower_char :: "char \<Rightarrow> char" where
  \<comment> \<open>\<open>str.lower\<close> on one code point below 256\<close>
  "lower_char c =
     (let n = (of_char c :: nat)
      in if (65 \<le> n \<and> n \<le> 90) \<or> (192 \<le> n \<and> n \<le> 222 \<and> n \<noteq> 215)
         then char_of (n + 32) else c)"

definition lower :: "string \<Rightarrow> string" where
  "lower s = map lower_char s"

fun starts_with :: "string \<Rightarrow> string \<Rightarrow> bool" where
  "starts_with [] s = True"
| "starts_with (p # ps) [] = False"
| "starts_with (p # ps) (c # cs) = (p = c \<and> starts_with ps cs)"

fun contains :: "string \<Rightarrow> string \<Rightarrow> bool" where
  \<comment> \<open>\<open>sub in s\<close>\<close>
  "contains sub [] = (sub = [])"
| "contains sub (c # cs) = (starts_with sub (c # cs) \<or> contains sub cs)"

definition re_match_coord :: "string \<Rightarrow> (bool \<times> string \<times> string \<times> char option) option" where
  \<comment> \<open>\<open>re.match(r"(-?\d+(?:\.\d+)?)\s*([NSEW])?", s, re.I)\<close>: the sign, the integer digits
      and the fraction digits of group 1, and group 2. Everything after the first digits
      is optional, so the greedy match never backtracks.\<close>
  "re_match_coord s =
     (let neg = (case s of c # _ \<Rightarrow> c = CHR ''-'' | [] \<Rightarrow> False);
          s1 = (if neg then tl s else s);
          ip = takeWhile is_digit s1;
          s2 = dropWhile is_digit s1;
          has_frac = (case s2 of c # d # _ \<Rightarrow> c = CHR ''.'' \<and> is_digit d | _ \<Rightarrow> False);
          fp = (if has_frac then takeWhile is_digit (tl s2) else []);
          s3 = (if has_frac then dropWhile is_digit (tl s2) else s2);
          s4 = dropWhile is_space s3;
          hemi = (case s4 of c # _ \<Rightarrow> if c \<in> set ''NSEWnsew'' then Some c else None
                  | [] \<Rightarrow> None)
      in if ip = [] then None else Some (neg, ip, fp, hemi))"

definition parse_lat_lon :: "string option \<Rightarrow> string \<Rightarrow> pyfloat option" where
  "parse_lat_lon raw kind =
     (case raw of
        None \<Rightarrow> None
      | Some r \<Rightarrow>
          let s = strip r
          in if s = [] \<or> s = ''--'' \<or> contains ''not provided'' (lower s) then None
             else
               (case re_match_coord s of
                  None \<Rightarrow> None
                | Some (neg, ip, fp, hemi) \<Rightarrow>
                    let v0 = float_of_decimal neg ip fp;
                        v = (if hemi \<in> {Some CHR ''S'', Some CHR ''s'', Some CHR ''W'', Some CHR ''w''}
                             then fneg (fabs v0)
                             else if hemi \<noteq> None then fabs v0
                             else v0)
                    in if kind = ''lat'' \<and> (below v (- 90) \<or> above v 90) then None
                       else if kind = ''lon'' \<and> (below v (- 180) \<or> above v 180) then None
                       else Some v))"

section \<open>Province coordinate table: \<open>load_province_coords\<close>\<close>

type_synonym coord = "pyfloat \<times> pyfloat"

fun before_sep :: "string \<Rightarrow> string" where
  \<comment> \<open>\<open>name.split(" [")[0]\<close>: the text before the first space followed by an opening
      bracket, the whole text when there is none\<close>
  "before_sep [] = []"
| "before_sep (c # cs) =
     (if c = CHR '' '' \<and> (case cs of d # _ \<Rightarrow> d = CHR ''['' | [] \<Rightarrow> False) then []
      else c # before_sep cs)"

definition float_field :: "(string \<Rightarrow> pyfloat option) \<Rightarrow> row \<Rightarrow> string \<Rightarrow> pyfloat option" where
  \<comment> \<open>\<open>float(row.get(col, 0))\<close> under \<open>try\<close>: an absent column gives \<open>float(0)\<close>, a
      \<open>None\<close> value raises TypeError and text that is no number raises ValueError (both
      \<open>None\<close> here). \<open>py_float\<close> is Python's \<open>float\<close> on a string.\<close>
  "float_field py_float r col =
     (case r col of
        None \<Rightarrow> Some (PyFloat False 0)
      | Some None \<Rightarrow> None
      | Some (Some t) \<Rightarrow> py_float t)"

definition register_province ::
  "(string \<Rightarrow> pyfloat option) \<Rightarrow> (string \<rightharpoonup> coord) \<Rightarrow> row \<Rightarrow> (string \<rightharpoonup> coord)" where
  \<comment> \<open>the body of the loop over the rows of the reference table\<close>
  "register_province py_float coords r =
     (let name = strip (or_empty (get r ''Province''))
      in if name = [] then coords
         else
           (case float_field py_float r ''Latitude'' of
              None \<Rightarrow> coords
            | Some lat \<Rightarrow>
                (case float_field py_float r ''Longitude'' of
                   None \<Rightarrow> coords
                 | Some lon \<Rightarrow>
                     let coords1 = coords(name \<mapsto> (lat, lon));
                         short = strip (before_sep name)
                     in if short \<noteq> [] \<and> short \<noteq> name then coords1(short \<mapsto> (lat, lon))
                        else coords1)))"

definition load_province_coords ::
  "(string \<Rightarrow> pyfloat option) \<Rightarrow> row list option \<Rightarrow> (string \<rightharpoonup> coord)" where
  \<comment> \<open>the rows of the reference file, \<open>None\<close> when the file does not exist\<close>
  "load_province_coords py_float file =
     (case file of
        None \<Rightarrow> Map.empty
      | Some rs \<Rightarrow> foldl (register_province py_float) Map.empty rs)"

section \<open>Dashboard aggregator: \<open>main\<close> of build\_dashboard\_data.py\<close>

text \<open>
  A Python dictionary keeps its keys in insertion order, and the sorts below are stable,
  so a dictionary of counters is an association list. \<open>upsert k f d\<close> changes the value
  under \<open>k\<close> in place, or appends \<open>k\<close> with \<open>f d\<close> when the key is new.
\<close>

fun upsert :: "'k \<Rightarrow> ('v \<Rightarrow> 'v) \<Rightarrow> 'v \<Rightarrow> ('k \<times> 'v) list \<Rightarrow> ('k \<times> 'v) list" where
  "upsert k f d [] = [(k, f d)]"
| "upsert k f d ((k', x) # kvs) =
     (if k = k' then (k', f x) # kvs else (k', x) # upsert k f d kvs)"

definition bump :: "'k \<Rightarrow> ('k \<times> nat) list \<Rightarrow> ('k \<times> nat) list" where
  \<comment> \<open>\<open>d[k] = d.get(k, 0) + 1\<close>\<close>
  "bump k m = upsert k Suc 0 m"

definition count_of :: "('k \<times> nat) list \<Rightarrow> 'k \<Rightarrow> nat" where
  \<comment> \<open>\<open>d.get(k, 0)\<close>\<close>
  "count_of m k = (case map_of m k of None \<Rightarrow> 0 | Some n \<Rightarrow> n)"

definition match_year :: "string \<Rightarrow> int option" where
  \<comment> \<open>\<open>re.match(r"^(\d{4})", s)\<close> and \<open>int\<close> of its group\<close>
  "match_year s =
     (if 4 \<le> length s \<and> list_all is_digit (take 4 s)
      then Some (int (nat_of_digits (take 4 s))) else None)"

definition match_year_month :: "string \<Rightarrow> string option" where
  \<comment> \<open>\<open>re.match(r"^(\d{4})-(\d{2})", s)\<close> and the text \<open>f"{g1}-{g2}"\<close>\<close>
  "match_year_month s =
     (if 7 \<le> length s \<and> list_all is_digit (take 4 s) \<and> s ! 4 = CHR ''-''
         \<and> is_digit (s ! 5) \<and> is_digit (s ! 6)
      then Some (take 7 s) else None)"

record acc =
  site_set :: "string set"
  org_set :: "string set"
  organisms_set :: "string set"
  coord_counts :: "(coord \<times> nat) list"
  growth_by_year :: "(int \<times> nat) list"
  min_year :: "int option"
  max_year :: "int option"

definition acc_init :: acc where
  \<comment> \<open>\<open>min_year = inf\<close> and \<open>max_year = -inf\<close> are \<open>None\<close>\<close>
  "acc_init = \<lparr> site_set = {}, org_set = {}, organisms_set = {}, coord_counts = [],
                growth_by_year = [], min_year = None, max_year = None \<rparr>"

definition add_nonempty :: "string \<Rightarrow> string set \<Rightarrow> string set" where
  "add_nonempty s A = (if s \<noteq> [] then insert s A else A)"

definition resolve_coord :: "(string \<rightharpoonup> coord) \<Rightarrow> row \<Rightarrow> coord option" where
  \<comment> \<open>the coordinate of a record: both axes parsed, or else the province's entry. The key
      \<open>f"{lat},{lon}"\<close> of \<open>coord_counts\<close> is the pair itself: the text of a float tells
      its sign and magnitude, and \<open>float\<close> reads it back.\<close>
  "resolve_coord province_coords r =
     (let lat = parse_lat_lon (get r ''geo loc latitude'') ''lat'';
          lon = parse_lat_lon (get r ''geo loc longitude'') ''lon''
      in case (lat, lon) of
           (Some la, Some lo) \<Rightarrow> Some (la, lo)
         | _ \<Rightarrow>
             let state_province =
                   strip (or_empty (get r ''geo loc name (state/province/territory)''))
             in if state_province \<noteq> [] then province_coords state_province else None)"

definition row_year :: "row \<Rightarrow> int option" where
  "row_year r =
     (let date_str = strip (or_empty (get r ''sample collection start date''))
      in if date_str \<noteq> [] then match_year date_str else None)"

definition scan_row :: "(string \<rightharpoonup> coord) \<Rightarrow> acc \<Rightarrow> row \<Rightarrow> acc" where
  \<comment> \<open>the body of the first loop over the rows\<close>
  "scan_row province_coords a r =
     (let a1 = a\<lparr> site_set := add_nonempty (strip (or_empty (get r ''geo loc name (site)''))) (site_set a),
                  org_set := add_nonempty
                    (strip (or_empty (get r ''sample collected by organisation name''))) (org_set a),
                  organisms_set := add_nonempty (strip (or_empty (get r ''organism'')))
                    (organisms_set a) \<rparr>;
          a2 = (case resolve_coord province_coords r of
                  None \<Rightarrow> a1
                | Some key \<Rightarrow> a1\<lparr> coord_counts := bump key (coord_counts a1) \<rparr>)
      in case row_year r of
           None \<Rightarrow> a2
         | Some year \<Rightarrow>
             a2\<lparr> min_year := (case min_year a2 of None \<Rightarrow> Some year | Some m \<Rightarrow> Some (min m year)),
                 max_year := (case max_year a2 of None \<Rightarrow> Some year | Some m \<Rightarrow> Some (max m year)),
                 growth_by_year := bump year (growth_by_year a2) \<rparr>)"

definition growth_series :: "acc \<Rightarrow> (int \<times> nat) list" where
  \<comment> \<open>\<open>for y in range(y_min, y_max + 1)\<close>, with \<open>0\<close> for a bound that was never set\<close>
  "growth_series a =
     (let y_min = (case min_year a of None \<Rightarrow> 0 | Some y \<Rightarrow> y);
          y_max = (case max_year a of None \<Rightarrow> 0 | Some y \<Rightarrow> y)
      in snd (foldl (\<lambda>(cumulative, growth) y.
                       let cumulative1 = cumulative + count_of (growth_by_year a) y
                       in (cumulative1, growth @ [(y, cumulative1)]))
                (0, []) [y_min..y_max]))"

definition site_label :: "row \<Rightarrow> string option" where
  \<comment> \<open>\<open>trim_brackets(row.get("environmental site")) or "Unknown"\<close>; \<open>None\<close> when
      \<open>trim_brackets\<close> does not return\<close>
  "site_label r =
     map_option (\<lambda>s. or_default s ''Unknown'') (trim_brackets (get r ''environmental site''))"

fun count_sites :: "(string \<times> nat) list \<Rightarrow> row list \<Rightarrow> (string \<times> nat) list option" where
  "count_sites m [] = Some m"
| "count_sites m (r # rs) =
     (case site_label r of None \<Rightarrow> None | Some site \<Rightarrow> count_sites (bump site m) rs)"

definition top_sites :: "(string \<times> nat) list \<Rightarrow> string list" where
  "top_sites site_counts = map fst (take 8 (sort_key (\<lambda>x. - int (snd x)) site_counts))"

fun count_categories ::
  "string list \<Rightarrow> (string \<times> nat) list \<Rightarrow> row list \<Rightarrow> (string \<times> nat) list option" where
  "count_categories tops m [] = Some m"
| "count_categories tops m (r # rs) =
     (case site_label r of
        None \<Rightarrow> None
      | Some site \<Rightarrow>
          count_categories tops (bump (if site \<in> set tops then site else ''Other'') m) rs)"

definition breakdown_of :: "(string \<times> nat) list \<Rightarrow> (string \<times> nat) list" where
  \<comment> \<open>\<open>sorted(category_counts.items(), key=lambda x: (x[0].lower() == "other", -x[1]))\<close>\<close>
  "breakdown_of category_counts =
     sort_key (\<lambda>x. (lower (fst x) = ''other'', - int (snd x))) category_counts"

definition coverage_of :: "(coord \<times> nat) list \<Rightarrow> (pyfloat \<times> pyfloat \<times> nat) list" where
  "coverage_of counts =
     sort_key (\<lambda>p. - int (snd (snd p))) (map (\<lambda>((lat, lon), n). (lat, lon, n)) counts)"

record sample_row =
  s_organism :: string
  s_purpose :: string
  s_province :: string
  s_site :: string
  s_device :: string
  s_assay :: string
  s_year :: "int option"
  s_year_month :: "string option"

definition sample_field_spec_row :: "row \<Rightarrow> sample_row option" where
  "sample_field_spec_row r =
     (let date_str = strip (or_empty (get r ''sample collection start date''));
          year = (if date_str \<noteq> [] then match_year date_str else None);
          year_month = (if date_str \<noteq> [] then match_year_month date_str else None)
      in Option.bind (trim_brackets (get_default r ''organism'' [])) (\<lambda>organism.
         Option.bind (trim_brackets (get_default r ''purpose of sampling'' [])) (\<lambda>purpose.
         Option.bind (trim_brackets
             (get_default r ''geo loc name (state/province/territory)'' [])) (\<lambda>province.
         Option.bind (trim_brackets (get_default r ''environmental site'' [])) (\<lambda>site.
         Option.bind (trim_brackets (get_default r ''collection device'' [])) (\<lambda>device.
         Option.bind (trim_brackets (get_default r ''assay type'' [])) (\<lambda>assay.
           Some \<lparr> s_organism = organism, s_purpose = purpose, s_province = province,
                  s_site = site, s_device = device, s_assay = assay,
                  s_year = year, s_year_month = year_month \<rparr>)))))))"

fun sample_rows :: "row list \<Rightarrow> sample_row list option" where
  "sample_rows [] = Some []"
| "sample_rows (r # rs) =
     (case sample_field_spec_row r of
        None \<Rightarrow> None
      | Some x \<Rightarrow> map_option (\<lambda>xs. x # xs) (sample_rows rs))"

record payload =
  p_records :: nat
  p_sites :: nat
  p_start :: "int option"
  p_end :: "int option"
  p_organisms :: nat
  p_data_sources :: nat
  p_growth :: "(int \<times> nat) list"
  p_breakdown :: "(string \<times> nat) list"
  p_coverage :: "(pyfloat \<times> pyfloat \<times> nat) list"
  p_sample_rows :: "sample_row list"

definition main_dashboard ::
  "(string \<Rightarrow> pyfloat option) \<Rightarrow> row list option \<Rightarrow> row list \<Rightarrow> payload option" where
  \<comment> \<open>the payload that \<open>main\<close> writes, from the rows of the reference table and of the
      dataset; \<open>None\<close> when \<open>main\<close> does not return. The constant entries of the payload
      (\<open>fields\<close>, \<open>axisOptions\<close>) and what the script prints are left out.\<close>
  "main_dashboard py_float province_file rows =
     (let province_coords = load_province_coords py_float province_file;
          a = foldl (scan_row province_coords) acc_init rows;
          growth = growth_series a
      in Option.bind (count_sites [] rows) (\<lambda>site_counts.
         Option.bind (count_categories (top_sites site_counts) [] rows) (\<lambda>category_counts.
         Option.bind (sample_rows rows) (\<lambda>samples.
           Some \<lparr> p_records = length rows,
                  p_sites = card (site_set a),
                  p_start = min_year a,
                  p_end = max_year a,
                  p_organisms = card (organisms_set a),
                  p_data_sources = card (org_set a),
                  p_growth = growth,
                  p_breakdown = breakdown_of category_counts,
                  p_coverage = coverage_of (coord_counts a),
                  p_sample_rows = samples \<rparr>))))"

section \<open>Quantitative nester: \<open>main\<close> of build\_quant\_tsv.py\<close>

definition DATE_COL :: string where
  "DATE_COL = ''sample collection start date''"

definition NEST_ORDER :: "string list" where
  "NEST_ORDER =
     [''geo loc name (state/province/territory)'', ''geo loc name (city)'',
      ''geo loc name (site)'', ''assay type'', ''target taxonomic name'', ''gene symbol'',
      ''diagnostic measurement unit'', ''sample collection start date'']"

definition VALUE_COL :: string where
  "VALUE_COL = ''diagnostic measurement value''"

definition METADATA_COLUMNS :: "string list" where
  "METADATA_COLUMNS =
     [''sample collection start date'', ''geo loc name (site)'',
      ''geo loc name (state/province/territory)'', ''geo loc name (city)'', ''organism'',
      ''assay type'']"

definition TARGET_BASE_NAMES :: "string list" where
  "TARGET_BASE_NAMES =
     [''target taxonomic name'', ''assay target name'', ''gene symbol'',
      ''diagnostic target presence'', ''diagnostic measurement value'',
      ''diagnostic measurement unit'', ''diagnostic measurement method'']"

text \<open>A sub-record \<open>out_row\<close> is a dictionary from field names to strings.\<close>

type_synonym subrec = "string \<rightharpoonup> string"

definition str_slot :: "nat \<Rightarrow> string" where
  \<comment> \<open>\<open>str(target_num)\<close> for the one-digit slot numbers\<close>
  "str_slot n = [char_of (48 + n)]"

definition expand_row :: "string list \<Rightarrow> row \<Rightarrow> nat \<Rightarrow> subrec" where
  \<comment> \<open>the body of \<open>for target_num in (1, 2, 3)\<close>\<close>
  "expand_row meta_ok r target_num =
     (let out_row0 = foldl (\<lambda>m col. m(col \<mapsto> strip (or_empty (get r col)))) Map.empty meta_ok;
          out_row1 = out_row0(''target'' \<mapsto> str_slot target_num)
      in foldl (\<lambda>m base. m(base \<mapsto> strip (or_empty (get r (base @ '' '' @ str_slot target_num)))))
           out_row1 TARGET_BASE_NAMES)"

definition expand :: "string list \<Rightarrow> row list \<Rightarrow> subrec list" where
  "expand meta_ok rows = concat (map (\<lambda>r. map (expand_row meta_ok r) [1, 2, 3]) rows)"

definition has_target_info :: "subrec \<Rightarrow> bool" where
  "has_target_info r = list_ex (\<lambda>base. strip (or_empty (r base)) \<noteq> []) TARGET_BASE_NAMES"

definition date_sort_key :: "subrec \<Rightarrow> bool \<times> string" where
  \<comment> \<open>\<open>sort_key\<close> of the script: \<open>(not bool(d), d)\<close>\<close>
  "date_sort_key r = (let d = strip (or_empty (r DATE_COL)) in (d = [], d))"

definition path_vals :: "subrec \<Rightarrow> string list" where
  "path_vals r =
     map (\<lambda>f. let raw = strip (or_empty (r f))
               in if f = DATE_COL then or_default (strip_brackets raw) ''(no date)''
                  else or_default (strip_brackets raw) ''(blank)'')
       NEST_ORDER"

definition value_val :: "subrec \<Rightarrow> string" where
  "value_val r = or_default (strip_brackets (strip (or_empty (r VALUE_COL)))) ''(blank)''"

text \<open>
  The nested \<open>defaultdict\<close>: dictionaries in insertion order down to the lists of
  measurement values. Reading a missing key of a \<open>defaultdict\<close> appends the key with
  an empty dictionary, or with an empty list at the last level.
\<close>

datatype nest = Leaf "string list" | Node "(string \<times> nest) list"

definition fresh :: "string list \<Rightarrow> nest" where
  \<comment> \<open>the default value above the remaining keys \<open>ks\<close> of a path\<close>
  "fresh ks = (if ks = [] then Leaf [] else Node [])"

fun insert_path :: "string list \<Rightarrow> string \<Rightarrow> nest \<Rightarrow> nest" where
  \<comment> \<open>\<open>d = nested; for level_key in path_vals[:-1]: d = d[level_key]\<close> and
      \<open>d[path_vals[-1]].append(value_val)\<close>. Every path has the eight keys of
      \<open>NEST_ORDER\<close>, so a list is met exactly when the path is used up: the last
      equation is never reached.\<close>
  "insert_path [] v (Leaf xs) = Leaf (xs @ [v])"
| "insert_path (k # ks) v (Node kvs) = Node (upsert k (insert_path ks v) (fresh ks) kvs)"
| "insert_path ks v t = t"

definition build_nested :: "subrec list \<Rightarrow> nest" where
  "build_nested out_rows =
     foldl (\<lambda>nested r. insert_path (path_vals r) (value_val r) nested) (Node []) out_rows"

definition item_sort_key :: "string \<Rightarrow> bool \<times> string" where
  \<comment> \<open>\<open>_sort_key\<close> of the script, on the key of the item\<close>
  "item_sort_key k = (k \<in> {''(no date)'', ''(blank)''}, k)"

datatype rendered = RLeaf "(nat \<times> string) list" | RNode "(string \<times> rendered) list"

fun to_sorted_dict :: "nest \<Rightarrow> rendered" where
  "to_sorted_dict (Leaf obj) = RLeaf (zip [0..<length obj] obj)"
| "to_sorted_dict (Node items) =
     RNode (sort_key (\<lambda>item. item_sort_key (fst item))
              (map (\<lambda>item. (fst item, to_sorted_dict (snd item))) items))"

definition surviving :: "string list \<Rightarrow> row list \<Rightarrow> subrec list" where
  \<comment> \<open>\<open>out_rows\<close> after the filter, before the sort; \<open>fieldnames\<close> is the header of the CSV\<close>
  "surviving fieldnames rows =
     filter has_target_info
       (expand (filter (\<lambda>c. c \<in> set fieldnames) METADATA_COLUMNS) rows)"

definition main_quant :: "string list \<Rightarrow> row list \<Rightarrow> rendered" where
  \<comment> \<open>\<open>out_data\<close>, the document that \<open>main\<close> writes\<close>
  "main_quant fieldnames rows =
     to_sorted_dict (build_nested (sort_key date_sort_key (surviving fieldnames rows)))"

section \<open>Notions for the statements about the nested tree\<close>

text \<open>The list under a path of keys in the nested dictionary, when the path leads to one.\<close>

fun nest_at :: "string list \<Rightarrow> nest \<Rightarrow> string list option" where
  "nest_at [] (Leaf xs) = Some xs"
| "nest_at (k # ks) (Node items) =
     (case map_of items k of None \<Rightarrow> None | Some t \<Rightarrow> nest_at ks t)"
| "nest_at ks t = None"

text \<open>
  A dictionary of \<open>n\<close> levels of keys above its lists; the keys of a dictionary are
  distinct.
\<close>

fun shaped :: "nat \<Rightarrow> nest \<Rightarrow> bool" where
  "shaped 0 (Leaf xs) = True"
| "shaped (Suc n) (Node items) =
     (distinct (map fst items) \<and> list_all (\<lambda>item. shaped n (snd item)) items)"
| "shaped n t = False"

text \<open>The index-keyed mapping under a path of keys in the rendered document.\<close>

fun leaf_at :: "string list \<Rightarrow> rendered \<Rightarrow> (nat \<times> string) list option" where
  "leaf_at [] (RLeaf ixs) = Some ixs"
| "leaf_at (k # ks) (RNode items) =
     (case map_of items k of None \<Rightarrow> None | Some t \<Rightarrow> leaf_at ks t)"
| "leaf_at ks t = None"

text \<open>
  The order of two sibling keys: a sentinel label stands behind every other key; two
  sentinel labels, and two other keys, stand in the order of their code points.
\<close>

definition key_before :: "string \<Rightarrow> string \<Rightarrow> bool" where
  "key_before a b =
     (if (a \<in> {''(no date)'', ''(blank)''}) = (b \<in> {''(no date)'', ''(blank)''}) then a < b
      else b \<in> {''(no date)'', ''(blank)''})"

fun keys_ordered :: "rendered \<Rightarrow> bool" where
  "keys_ordered (RLeaf ixs) = True"
| "keys_ordered (RNode items) =
     (sorted_wrt key_before (map fst items) \<and> list_all (\<lambda>item. keys_ordered (snd item)) items)"

section \<open>Properties of the field normaliser\<close>

lemma or_default_empty [simp]: "or_default s [] = s"
  by (simp add: or_default_def)

lemma set_strip: "set (strip s) \<subseteq> set s"
  unfolding strip_def by (metis set_dropWhileD set_rev subsetI)

lemma strip_idem: "strip (strip s) = strip s"
  unfolding strip_def
proof -
  define u where "u = rev (dropWhile is_space (rev (dropWhile is_space s)))"
  have front: "dropWhile is_space u = u"
  proof (cases "u = []")
    case True
    then show ?thesis by simp
  next
    case False
    then have ne: "dropWhile is_space (rev (dropWhile is_space s)) \<noteq> []"
      by (simp add: u_def)
    have ne2: "dropWhile is_space s \<noteq> []"
    proof
      assume "dropWhile is_space s = []"
      with ne show False by simp
    qed
    from ne obtain x where x: "x \<in> set (rev (dropWhile is_space s))" "\<not> is_space x"
      by (auto simp: dropWhile_eq_Nil_conv)
    have "hd u = last (dropWhile is_space (rev (dropWhile is_space s)))"
      using ne by (simp add: u_def hd_rev)
    also have "\<dots> = last (rev (dropWhile is_space s))"
      using x by (rule dropWhile_last)
    also have "\<dots> = hd (dropWhile is_space s)"
      using ne2 by (simp add: last_rev)
    finally have "\<not> is_space (hd u)" using ne2 by (simp add: hd_dropWhile)
    with False show ?thesis by (cases u) auto
  qed
  have rear: "dropWhile is_space (rev u) = rev u"
  proof (cases "rev u = []")
    case True
    then show ?thesis by simp
  next
    case False
    then have "\<not> is_space (hd (rev u))" by (simp add: u_def hd_dropWhile)
    with False show ?thesis by (cases "rev u") auto
  qed
  show "rev (dropWhile is_space (rev (dropWhile is_space u))) = u"
    by (simp add: front rear)
qed

lemma set_re_sub_brackets: "set (re_sub_brackets s) \<subseteq> set s"
proof (induction s rule: re_sub_brackets.induct)
  case 1
  show ?case by simp
next
  case (2 c cs)
  have "set (tl (dropWhile (\<lambda>x. x \<noteq> CHR '']'') cs)) \<subseteq> set cs"
  proof -
    have "set (tl ys) \<subseteq> set ys" for ys :: string by (cases ys) auto
    then show ?thesis using set_dropWhileD by fastforce
  qed
  with 2 show ?case by auto
qed

lemma re_sub_brackets_id: "CHR ''['' \<notin> set s \<Longrightarrow> re_sub_brackets s = s"
  by (induction s) auto

text \<open>One pass leaves nothing that a second pass would delete.\<close>

lemma re_sub_brackets_idem: "re_sub_brackets (re_sub_brackets s) = re_sub_brackets s"
proof (induction s rule: re_sub_brackets.induct)
  case 1
  show ?case by simp
next
  case (2 c cs)
  show ?case
  proof (cases "c = CHR ''['' \<and> CHR '']'' \<in> set cs")
    case True
    with 2 show ?thesis by simp
  next
    case False
    with 2 have ih: "re_sub_brackets (re_sub_brackets cs) = re_sub_brackets cs" by simp
    from False have "\<not> (c = CHR ''['' \<and> CHR '']'' \<in> set (re_sub_brackets cs))"
      using set_re_sub_brackets [of cs] by auto
    with False ih show ?thesis by auto
  qed
qed

text \<open>
  The loop cannot end on a string that holds an opening bracket and that the
  substitution leaves as it is.
\<close>

lemma trim_loop_fixed:
  "trim_loop x = Some y \<Longrightarrow> \<not> (CHR ''['' \<in> set x \<and> re_sub_brackets x = x)"
  by (rule trim_loop.raw_induct
        [where P = "\<lambda>x y. \<not> (CHR ''['' \<in> set x \<and> re_sub_brackets x = x)"])
     (auto split: if_splits)

lemma trim_loop_stuck:
  assumes "CHR ''['' \<in> set s" and "re_sub_brackets s = s"
  shows "trim_loop s = None"
  using assms trim_loop_fixed [of s] by (cases "trim_loop s") auto

text \<open>So the loop makes no pass, one pass, or passes without end.\<close>

lemma trim_loop_eq:
  "trim_loop s =
     (if CHR ''['' \<notin> set s then Some s
      else if CHR ''['' \<notin> set (re_sub_brackets s) then Some (re_sub_brackets s)
      else None)"
proof (cases "CHR ''['' \<in> set s")
  case False
  then show ?thesis by (simp add: trim_loop.simps)
next
  case True
  then have step: "trim_loop s = trim_loop (re_sub_brackets s)"
    by (subst trim_loop.simps) simp
  show ?thesis
  proof (cases "CHR ''['' \<in> set (re_sub_brackets s)")
    case False
    with True step show ?thesis by (simp add: trim_loop.simps)
  next
    case t: True
    with True step show ?thesis
      by (simp add: trim_loop_stuck re_sub_brackets_idem)
  qed
qed

lemma trim_brackets_Some_eq:
  "trim_brackets (Some s) =
     (if CHR ''['' \<notin> set (strip s) then Some (strip s)
      else if CHR ''['' \<notin> set (re_sub_brackets (strip s))
           then Some (strip (re_sub_brackets (strip s)))
      else None)"
  by (simp add: trim_loop_eq strip_idem)

declare trim_brackets.simps(2) [simp del]

lemma trim_brackets_empty: "trim_brackets (Some []) = Some []"
  by (simp add: trim_brackets_Some_eq strip_def)

lemma trim_brackets_no_open:
  assumes "trim_brackets v = Some r"
  shows "CHR ''['' \<notin> set r"
proof (cases v)
  case None
  with assms show ?thesis by simp
next
  case (Some s)
  with assms show ?thesis
    using set_strip [of "re_sub_brackets (strip s)"] set_strip [of "strip s"]
    by (auto simp del: trim_brackets.simps simp: trim_brackets_Some_eq split: if_splits)
qed

lemma trim_brackets_stripped:
  assumes "trim_brackets v = Some r"
  shows "strip r = r"
proof (cases v)
  case None
  with assms show ?thesis by (auto simp: strip_def)
next
  case (Some s)
  with assms show ?thesis
    by (auto simp del: trim_brackets.simps simp: trim_brackets_Some_eq strip_idem
        split: if_splits)
qed

lemma trim_brackets_again:
  assumes "trim_brackets v = Some r"
  shows "trim_brackets (Some r) = Some r"
  using trim_brackets_no_open [OF assms] trim_brackets_stripped [OF assms]
  by (simp del: trim_brackets.simps add: trim_brackets_Some_eq)

lemma not_space_brackets: "\<not> is_space CHR ''[''" "\<not> is_space CHR '']''"
  by (simp_all add: is_space_def)

lemma flat_inside:
  "flat_brackets True cs \<Longrightarrow>
     CHR '']'' \<in> set cs \<and> flat_brackets False (tl (dropWhile (\<lambda>x. x \<noteq> CHR '']'') cs))"
  by (induction cs) (auto split: if_splits)

lemma flat_re_sub_brackets:
  "flat_brackets False s \<Longrightarrow>
     CHR ''['' \<notin> set (re_sub_brackets s) \<and> CHR '']'' \<notin> set (re_sub_brackets s)"
proof (induction s rule: re_sub_brackets.induct)
  case 1
  show ?case by simp
next
  case (2 c cs)
  show ?case
  proof (cases "c = CHR ''[''")
    case True
    with 2(3) have "flat_brackets True cs" by simp
    from flat_inside [OF this] True 2(1) show ?thesis by simp
  next
    case False
    with 2(3) have "c \<noteq> CHR '']''" "flat_brackets False cs" by (auto split: if_splits)
    with False 2(2) show ?thesis by simp
  qed
qed

lemma flat_dropWhile: "flat_brackets b (dropWhile is_space s) = flat_brackets b s"
  by (induction s) (auto simp: not_space_brackets)

lemma flat_all_space: "\<forall>c\<in>set t. is_space c \<Longrightarrow> flat_brackets b t = (\<not> b)"
  by (induction t) (auto simp: not_space_brackets)

lemma flat_append_space:
  "\<forall>c\<in>set t. is_space c \<Longrightarrow> flat_brackets b (s @ t) = flat_brackets b s"
  by (induction s arbitrary: b) (auto simp: flat_all_space)

lemma flat_strip: "flat_brackets b (strip s) = flat_brackets b s"
proof -
  define u where "u = dropWhile is_space s"
  have "rev u = takeWhile is_space (rev u) @ dropWhile is_space (rev u)" by simp
  then have "u = rev (dropWhile is_space (rev u)) @ rev (takeWhile is_space (rev u))"
    by (metis rev_append rev_rev_ident)
  moreover have "\<forall>c\<in>set (rev (takeWhile is_space (rev u))). is_space c"
    by (auto dest: set_takeWhileD)
  ultimately have "flat_brackets b u = flat_brackets b (rev (dropWhile is_space (rev u)))"
    using flat_append_space [of "rev (takeWhile is_space (rev u))" b
        "rev (dropWhile is_space (rev u))"] by simp
  then show ?thesis by (simp add: strip_def u_def flat_dropWhile)
qed

lemma trim_brackets_flat:
  assumes "flat_brackets False (or_empty v)"
  shows "\<exists>r. trim_brackets v = Some r \<and> CHR ''['' \<notin> set r \<and> CHR '']'' \<notin> set r"
proof (cases v)
  case None
  then show ?thesis by simp
next
  case (Some s)
  with assms have "flat_brackets False (strip s)" by (simp add: or_empty_def flat_strip)
  from flat_re_sub_brackets [OF this]
  have clean: "CHR ''['' \<notin> set (re_sub_brackets (strip s))"
    "CHR '']'' \<notin> set (re_sub_brackets (strip s))" by simp_all
  have sub: "set (strip (re_sub_brackets (strip s))) \<subseteq> set (re_sub_brackets (strip s))"
    by (rule set_strip)
  show ?thesis
  proof (cases "CHR ''['' \<in> set (strip s)")
    case True
    with clean sub Some show ?thesis
      by (auto simp del: trim_brackets.simps simp: trim_brackets_Some_eq)
  next
    case False
    then have same: "re_sub_brackets (strip s) = strip s"
      by (rule re_sub_brackets_id)
    with clean False Some show ?thesis
      using set_strip [of "strip s"]
      by (auto simp del: trim_brackets.simps simp: trim_brackets_Some_eq)
  qed
qed

text \<open>
  C2, first half as stated, second half amended. Applying \<open>trim_brackets\<close> to its own
  result gives that result again (where the first call does not return, neither does the
  composition). A result never holds an opening bracket. Where the bracket groups of the
  input stand side by side (none nested, no bracket unmatched), \<open>trim_brackets\<close> returns
  and the result holds no bracket character at all.
\<close>

theorem trim_brackets_idempotent_flat:
  "Option.bind (trim_brackets v) (\<lambda>r. trim_brackets (Some r)) = trim_brackets v
   \<and> (trim_brackets v = Some r \<longrightarrow> CHR ''['' \<notin> set r)
   \<and> (flat_brackets False (or_empty v) \<longrightarrow>
        (\<exists>r'. trim_brackets v = Some r' \<and> CHR ''['' \<notin> set r' \<and> CHR '']'' \<notin> set r'))"
proof (intro conjI impI)
  show "Option.bind (trim_brackets v) (\<lambda>r. trim_brackets (Some r)) = trim_brackets v"
    by (cases "trim_brackets v") (simp_all del: trim_brackets.simps add: trim_brackets_again)
next
  assume "trim_brackets v = Some r"
  then show "CHR ''['' \<notin> set r" by (rule trim_brackets_no_open)
next
  assume "flat_brackets False (or_empty v)"
  then show "\<exists>r'. trim_brackets v = Some r' \<and> CHR ''['' \<notin> set r' \<and> CHR '']'' \<notin> set r'"
    by (rule trim_brackets_flat)
qed

theorem trim_brackets_idempotent_flat_witness:
  "trim_brackets (Some '' x [a] y [b]  '') = Some ''x  y''
   \<and> flat_brackets False (or_empty (Some '' x [a] y [b]  ''))
   \<and> Option.bind (trim_brackets (Some '' x [a] y [b]  '')) (\<lambda>r. trim_brackets (Some r))
       = Some ''x  y''
   \<and> CHR ''['' \<notin> set ''x  y''
   \<and> (\<exists>r'. trim_brackets (Some '' x [a] y [b]  '') = Some r'
          \<and> CHR ''['' \<notin> set r' \<and> CHR '']'' \<notin> set r')"
proof -
  have run: "trim_brackets (Some '' x [a] y [b]  '') = Some ''x  y''"
    by (simp del: trim_brackets.simps add: trim_brackets_Some_eq strip_def is_space_def)
  have flat: "flat_brackets False (or_empty (Some '' x [a] y [b]  ''))"
    by (simp add: or_empty_def)
  from trim_brackets_idempotent_flat [of "Some '' x [a] y [b]  ''" "''x  y''"] run flat
  show ?thesis by simp
qed

text \<open>
  C2, counterexample to the second half as stated: of the nested group \<open>[a[b]c]\<close> the
  text \<open>c]\<close> is left, with a closing bracket in it.
\<close>

theorem trim_brackets_nested_counterexample:
  "trim_brackets (Some ''[a[b]c]'') = Some ''c]'' \<and> CHR '']'' \<in> set ''c]''"
  by (simp del: trim_brackets.simps add: trim_brackets_Some_eq strip_def is_space_def)

text \<open>
  C3: on \<open>[abc\<close> the substitution finds no match, the string keeps its opening bracket
  and the loop never ends: \<open>trim_brackets\<close> does not return.
\<close>

theorem trim_brackets_unmatched_diverges:
  "trim_brackets (Some ''[abc'') = None"
  by (simp del: trim_brackets.simps add: trim_brackets_Some_eq strip_def is_space_def)

section \<open>Properties of the coordinate parser\<close>

lemma strip_examples:
  "strip ''45.5 N'' = ''45.5 N''" "strip ''45.5 S'' = ''45.5 S''" "strip ''200 N'' = ''200 N''"
  "strip [] = []" "strip ''--'' = ''--''" "strip ''not provided'' = ''not provided''"
  by (simp_all add: strip_def is_space_def)

lemma lower_examples:
  "lower ''45.5 N'' = ''45.5 n''" "lower ''45.5 S'' = ''45.5 s''" "lower ''200 N'' = ''200 n''"
  "lower ''not provided'' = ''not provided''"
  by code_simp+

lemma re_match_coord_examples:
  "re_match_coord ''45.5 N'' = Some (False, ''45'', ''5'', Some CHR ''N'')"
  "re_match_coord ''45.5 S'' = Some (False, ''45'', ''5'', Some CHR ''S'')"
  "re_match_coord ''200 N'' = Some (False, ''200'', [], Some CHR ''N'')"
  by (simp_all add: re_match_coord_def is_digit_def is_space_def)

lemma float_of_decimal_examples:
  "float_of_decimal False ''45'' ''5'' = PyFloat False 45.5"
  "float_of_decimal False ''200'' [] = PyFloat False 200"
  by (simp_all add: float_of_decimal_def nat_of_digits_def double_of_fraction_def
      floor_log2_def round_half_even_def Let_def)

text \<open>
  Rounding: a decimal beyond the precision of a double reads as the same float as its
  neighbour, and a latitude that rounds to 90 is in range.
\<close>

lemma float_of_decimal_rounding:
  "float_of_decimal False ''0'' ''10000000000000001'' = float_of_decimal False ''0'' ''1''"
  "float_of_decimal False ''90'' ''00000000000000001'' = PyFloat False 90"
  by (simp_all add: float_of_decimal_def nat_of_digits_def double_of_fraction_def
      floor_log2_def round_half_even_def Let_def)

text \<open>
  C8: \<open>"45.5 N"\<close> gives 45.5 and \<open>"45.5 S"\<close> gives -45.5, on either axis; \<open>"200 N"\<close> as a
  latitude gives \<open>None\<close>; the empty string, \<open>"--"\<close> and \<open>"not provided"\<close> give \<open>None\<close>.
\<close>

theorem parse_lat_lon_examples:
  "parse_lat_lon (Some ''45.5 N'') kind = Some (PyFloat False 45.5)
   \<and> fval (PyFloat False 45.5) = 45.5
   \<and> parse_lat_lon (Some ''45.5 S'') kind = Some (PyFloat True 45.5)
   \<and> fval (PyFloat True 45.5) = - 45.5
   \<and> parse_lat_lon (Some ''200 N'') ''lat'' = None
   \<and> parse_lat_lon (Some []) kind = None
   \<and> parse_lat_lon (Some ''--'') kind = None
   \<and> parse_lat_lon (Some ''not provided'') kind = None"
  by (simp add: parse_lat_lon_def strip_examples lower_examples re_match_coord_examples
      float_of_decimal_examples fabs_def fneg_def fval_def below_def above_def)

section \<open>Dictionaries of counters\<close>

lemma map_of_upsert:
  "map_of (upsert k f d m) =
     (map_of m)(k \<mapsto> f (case map_of m k of None \<Rightarrow> d | Some x \<Rightarrow> x))"
  by (induction m) (auto simp: fun_eq_iff)

lemma map_fst_upsert:
  "map fst (upsert k f d m) = (if k \<in> fst ` set m then map fst m else map fst m @ [k])"
proof (induction m)
  case Nil
  show ?case by simp
next
  case (Cons x m)
  obtain k' v where x: "x = (k', v)" by (cases x)
  show ?case
  proof (cases "k = k'")
    case True
    with x show ?thesis by simp
  next
    case False
    with x Cons show ?thesis by (cases "k \<in> fst ` set m") auto
  qed
qed

lemma distinct_upsert: "distinct (map fst m) \<Longrightarrow> distinct (map fst (upsert k f d m))"
  by (simp add: map_fst_upsert)

lemma count_of_bump: "count_of (bump k m) y = count_of m y + (if k = y then 1 else 0)"
  by (simp add: count_of_def bump_def map_of_upsert split: option.splits)

lemma sum_list_upsert_Suc:
  "sum_list (map snd (upsert k Suc 0 m)) = Suc (sum_list (map snd m))"
  by (induction m) auto

lemma sum_list_bump: "sum_list (map snd (bump k m)) = Suc (sum_list (map snd m))"
  by (simp add: bump_def sum_list_upsert_Suc)

section \<open>Properties of the growth series\<close>

text \<open>What the first loop has gathered about the years, after the rows \<open>rs\<close>.\<close>

lemma scan_years:
  fixes rs :: "row list" and pc :: "string \<rightharpoonup> coord"
  defines "a \<equiv> foldl (scan_row pc) acc_init rs"
  shows "(\<forall>y. count_of (growth_by_year a) y = length (filter (\<lambda>r. row_year r = Some y) rs))
    \<and> (min_year a = None \<longleftrightarrow> (\<forall>r\<in>set rs. row_year r = None))
    \<and> (max_year a = None \<longleftrightarrow> (\<forall>r\<in>set rs. row_year r = None))
    \<and> (\<forall>m. min_year a = Some m \<longrightarrow> (\<forall>r\<in>set rs. \<forall>y. row_year r = Some y \<longrightarrow> m \<le> y))
    \<and> (\<forall>m. max_year a = Some m \<longrightarrow> (\<forall>r\<in>set rs. \<forall>y. row_year r = Some y \<longrightarrow> y \<le> m))"
  unfolding a_def
proof (induction rs rule: rev_induct)
  case Nil
  show ?case by (simp add: acc_init_def count_of_def)
next
  case (snoc r rs)
  define b where "b = foldl (scan_row pc) acc_init rs"
  note ih = snoc [folded b_def]
  show ?case
  proof (cases "row_year r")
    case None
    then have "growth_by_year (scan_row pc b r) = growth_by_year b"
      "min_year (scan_row pc b r) = min_year b" "max_year (scan_row pc b r) = max_year b"
      by (simp_all add: scan_row_def Let_def split: option.splits)
    with ih None show ?thesis by (auto simp: b_def [symmetric])
  next
    case (Some year)
    then have g: "growth_by_year (scan_row pc b r) = bump year (growth_by_year b)"
      and lo: "min_year (scan_row pc b r) =
          (case min_year b of None \<Rightarrow> Some year | Some m \<Rightarrow> Some (min m year))"
      and hi: "max_year (scan_row pc b r) =
          (case max_year b of None \<Rightarrow> Some year | Some m \<Rightarrow> Some (max m year))"
      by (simp_all add: scan_row_def Let_def split: option.splits)
    show ?thesis
      unfolding foldl_append foldl.simps b_def [symmetric] g lo hi
      using ih Some
      by (auto simp: count_of_bump min_le_iff_disj le_max_iff_disj split: option.splits)
  qed
qed


lemma main_dashboard_SomeD:
  assumes "main_dashboard py_float province_file rows = Some p"
  obtains site_counts category_counts samples where
    "count_sites [] rows = Some site_counts"
    "count_categories (top_sites site_counts) [] rows = Some category_counts"
    "sample_rows rows = Some samples"
    "p_records p = length rows"
    "p_start p = min_year (foldl (scan_row (load_province_coords py_float province_file)) acc_init rows)"
    "p_end p = max_year (foldl (scan_row (load_province_coords py_float province_file)) acc_init rows)"
    "p_growth p =
       growth_series (foldl (scan_row (load_province_coords py_float province_file)) acc_init rows)"
    "p_breakdown p = breakdown_of category_counts"
    "p_coverage p =
       coverage_of (coord_counts
         (foldl (scan_row (load_province_coords py_float province_file)) acc_init rows))"
  using assms by (auto simp: main_dashboard_def Let_def split: bind_splits)

text \<open>The loop over the years, in closed form: the running total beside each year.\<close>

lemma cumulative_fold:
  "foldl (\<lambda>(cumulative, growth) y. (cumulative + g y, growth @ [(y, cumulative + g y)]))
      (0, []) ys
   = (sum_list (map g ys),
      map (\<lambda>k. (ys ! k, sum_list (map g (take (Suc k) ys)))) [0..<length ys])"
proof (induction ys rule: rev_induct)
  case Nil
  show ?case by simp
next
  case (snoc y ys)
  have "map (\<lambda>k. ((ys @ [y]) ! k, sum_list (map g (take (Suc k) (ys @ [y]))))) [0..<length ys]
      = map (\<lambda>k. (ys ! k, sum_list (map g (take (Suc k) ys)))) [0..<length ys]"
    by (rule map_cong) (auto simp: nth_append)
  with snoc show ?case by simp
qed

lemma growth_series_eq:
  fixes a :: acc
  defines "ys \<equiv> [(case min_year a of None \<Rightarrow> 0 | Some y \<Rightarrow> y)..
                   (case max_year a of None \<Rightarrow> 0 | Some y \<Rightarrow> y)]"
  shows "growth_series a =
     map (\<lambda>k. (ys ! k, sum_list (map (count_of (growth_by_year a)) (take (Suc k) ys))))
       [0..<length ys]"
  by (simp add: growth_series_def Let_def cumulative_fold ys_def)

lemma length_filter_disj:
  "(\<And>r. \<not> (P r \<and> Q r)) \<Longrightarrow>
     length (filter (\<lambda>r. P r \<or> Q r) rs) = length (filter P rs) + length (filter Q rs)"
  by (induction rs) auto

lemma count_partition:
  "distinct ys \<Longrightarrow>
     sum_list (map (\<lambda>y. length (filter (\<lambda>r. f r = Some y) rs)) ys)
       = length (filter (\<lambda>r. \<exists>y\<in>set ys. f r = Some y) rs)"
proof (induction ys)
  case Nil
  show ?case by simp
next
  case (Cons y ys)
  have "length (filter (\<lambda>r. f r = Some y \<or> (\<exists>y\<in>set ys. f r = Some y)) rs)
      = length (filter (\<lambda>r. f r = Some y) rs) + length (filter (\<lambda>r. \<exists>y\<in>set ys. f r = Some y) rs)"
    using Cons.prems by (intro length_filter_disj) auto
  with Cons show ?case by simp
qed

text \<open>
  C7: the cumulative counts of the growth series never decrease; the series ends with
  the number of records whose date has a year; it lists the years from the first to the
  last one, and a year without records repeats the count of the year before.
\<close>

theorem growth_series_cumulative:
  assumes "main_dashboard py_float province_file rows = Some p"
  shows "sorted (map snd (p_growth p))
    \<and> p_growth p \<noteq> []
    \<and> snd (last (p_growth p)) = length (filter (\<lambda>r. row_year r \<noteq> None) rows)
    \<and> (\<forall>lo hi. p_start p = Some lo \<and> p_end p = Some hi \<longrightarrow> map fst (p_growth p) = [lo..hi])
    \<and> (\<forall>i. Suc i < length (p_growth p)
            \<and> filter (\<lambda>r. row_year r = Some (fst (p_growth p ! Suc i))) rows = []
          \<longrightarrow> snd (p_growth p ! Suc i) = snd (p_growth p ! i))"
proof -
  define a where "a = foldl (scan_row (load_province_coords py_float province_file)) acc_init rows"
  define lo where "lo = (case min_year a of None \<Rightarrow> 0 | Some y \<Rightarrow> y)"
  define hi where "hi = (case max_year a of None \<Rightarrow> 0 | Some y \<Rightarrow> y)"
  define ys where "ys = [lo..hi]"
  define g where "g = count_of (growth_by_year a)"
  define S where "S k = sum_list (map g (take k ys))" for k
  from assms have pg: "p_growth p = growth_series a" and ps: "p_start p = min_year a"
    and pe: "p_end p = max_year a"
    by (auto elim!: main_dashboard_SomeD simp: a_def)
  have growth: "p_growth p = map (\<lambda>k. (ys ! k, S (Suc k))) [0..<length ys]"
    unfolding pg S_def g_def ys_def lo_def hi_def by (rule growth_series_eq)
  have len: "length (p_growth p) = length ys" by (simp add: growth)
  have nth: "p_growth p ! k = (ys ! k, S (Suc k))" if "k < length ys" for k
    using that by (simp add: growth)
  have years: "map fst (p_growth p) = ys"
    by (simp add: growth o_def map_nth)
  from scan_years [of "load_province_coords py_float province_file" rows]
  have g_eq: "g y = length (filter (\<lambda>r. row_year r = Some y) rows)"
    and none_lo: "min_year a = None \<longleftrightarrow> (\<forall>r\<in>set rows. row_year r = None)"
    and none_hi: "max_year a = None \<longleftrightarrow> (\<forall>r\<in>set rows. row_year r = None)"
    and low: "min_year a = Some m \<Longrightarrow> r \<in> set rows \<Longrightarrow> row_year r = Some y \<Longrightarrow> m \<le> y"
    and high: "max_year a = Some m \<Longrightarrow> r \<in> set rows \<Longrightarrow> row_year r = Some y \<Longrightarrow> y \<le> m"
    for m r y
    by (auto simp: a_def g_def)
  have range: "lo \<le> y \<and> y \<le> hi" if "r \<in> set rows" "row_year r = Some y" for r y
  proof -
    from that none_lo none_hi obtain m n where "min_year a = Some m" "max_year a = Some n"
      by (cases "min_year a"; cases "max_year a") auto
    with low [OF _ that] high [OF _ that] show ?thesis by (simp add: lo_def hi_def)
  qed
  have lo_le_hi: "lo \<le> hi"
  proof (cases "\<forall>r\<in>set rows. row_year r = None")
    case True
    with none_lo none_hi show ?thesis by (simp add: lo_def hi_def)
  next
    case False
    then obtain r y where "r \<in> set rows" "row_year r = Some y" by auto
    from range [OF this] show ?thesis by simp
  qed
  then have ys_ne: "ys \<noteq> []" by (simp add: ys_def)
  have step: "S (Suc (Suc i)) = S (Suc i) + g (ys ! Suc i)" if "Suc i < length ys" for i
    using that by (simp add: S_def take_Suc_conv_app_nth)
  have mono: "sorted (map snd (p_growth p))"
  proof -
    have "map snd (p_growth p) = map (\<lambda>k. S (Suc k)) [0..<length ys]"
      by (simp add: growth o_def)
    moreover have "sorted (map (\<lambda>k. S (Suc k)) [0..<length ys])"
      by (rule iffD2 [OF sorted_iff_nth_Suc]) (auto simp: step)
    ultimately show ?thesis by simp
  qed
  have final: "snd (last (p_growth p)) = length (filter (\<lambda>r. row_year r \<noteq> None) rows)"
  proof -
    have "p_growth p \<noteq> []" using ys_ne len by auto
    then have "last (p_growth p) = p_growth p ! (length ys - 1)"
      by (simp add: last_conv_nth len)
    also have "\<dots> = (ys ! (length ys - 1), S (length ys))"
      using ys_ne by (simp add: nth)
    finally have "snd (last (p_growth p)) = sum_list (map g ys)" by (simp add: S_def)
    also have "\<dots> = sum_list (map (\<lambda>y. length (filter (\<lambda>r. row_year r = Some y) rows)) ys)"
      by (rule arg_cong [where f = sum_list], rule map_cong) (simp_all add: g_eq)
    also have "\<dots> = length (filter (\<lambda>r. \<exists>y\<in>set ys. row_year r = Some y) rows)"
      by (rule count_partition) (simp add: ys_def)
    also have "\<dots> = length (filter (\<lambda>r. row_year r \<noteq> None) rows)"
      by (rule arg_cong [where f = length], rule filter_cong) (auto simp: ys_def dest: range)
    finally show ?thesis .
  qed
  have span: "map fst (p_growth p) = [l..h]" if "p_start p = Some l" "p_end p = Some h" for l h
    using that by (simp add: years ys_def lo_def hi_def ps pe)
  have flat: "snd (p_growth p ! Suc i) = snd (p_growth p ! i)"
    if "Suc i < length (p_growth p)"
      "filter (\<lambda>r. row_year r = Some (fst (p_growth p ! Suc i))) rows = []" for i
  proof -
    from that(1) have i: "Suc i < length ys" by (simp add: len)
    with that(2) have "g (ys ! Suc i) = 0" by (simp add: nth g_eq)
    with i show ?thesis by (simp add: nth step)
  qed
  from mono ys_ne len final span flat show ?thesis by auto
qed


text \<open>The counters of the first loop, one at a time.\<close>

lemma scan_growth_by_year:
  "growth_by_year (foldl (scan_row pc) a rs) =
     foldl (\<lambda>m r. case row_year r of None \<Rightarrow> m | Some y \<Rightarrow> bump y m) (growth_by_year a) rs"
  by (induction rs arbitrary: a) (auto simp: scan_row_def Let_def split: option.splits)

lemma scan_min_year:
  "min_year (foldl (scan_row pc) a rs) =
     foldl (\<lambda>m r. case row_year r of None \<Rightarrow> m
                    | Some y \<Rightarrow> (case m of None \<Rightarrow> Some y | Some x \<Rightarrow> Some (min x y)))
       (min_year a) rs"
  by (induction rs arbitrary: a) (auto simp: scan_row_def Let_def split: option.splits)

lemma scan_max_year:
  "max_year (foldl (scan_row pc) a rs) =
     foldl (\<lambda>m r. case row_year r of None \<Rightarrow> m
                    | Some y \<Rightarrow> (case m of None \<Rightarrow> Some y | Some x \<Rightarrow> Some (max x y)))
       (max_year a) rs"
  by (induction rs arbitrary: a) (auto simp: scan_row_def Let_def split: option.splits)

lemma scan_coord_counts:
  "coord_counts (foldl (scan_row pc) a rs) =
     foldl (\<lambda>m r. case resolve_coord pc r of None \<Rightarrow> m | Some key \<Rightarrow> bump key m)
       (coord_counts a) rs"
  by (induction rs arbitrary: a) (auto simp: scan_row_def Let_def split: option.splits)

text \<open>\<open>main\<close> returns when \<open>trim_brackets\<close> returns on the fields it is given.\<close>

lemma count_sites_returns:
  "\<forall>r\<in>set rows. site_label r \<noteq> None \<Longrightarrow> \<exists>m'. count_sites m rows = Some m'"
  by (induction rows arbitrary: m) auto

lemma count_categories_returns:
  "\<forall>r\<in>set rows. site_label r \<noteq> None \<Longrightarrow> \<exists>m'. count_categories tops m rows = Some m'"
  by (induction rows arbitrary: m) auto

lemma sample_rows_returns:
  "\<forall>r\<in>set rows. sample_field_spec_row r \<noteq> None \<Longrightarrow> \<exists>xs. sample_rows rows = Some xs"
  by (induction rows) auto

lemma main_dashboard_returns:
  assumes "\<forall>r\<in>set rows. site_label r \<noteq> None \<and> sample_field_spec_row r \<noteq> None"
  shows "\<exists>p. main_dashboard py_float province_file rows = Some p"
proof -
  from assms obtain sc where sc: "count_sites [] rows = Some sc"
    using count_sites_returns [of rows "[]"] by auto
  from assms obtain cc where cc: "count_categories (top_sites sc) [] rows = Some cc"
    using count_categories_returns [of rows "top_sites sc" "[]"] by auto
  from assms obtain xs where xs: "sample_rows rows = Some xs"
    using sample_rows_returns [of rows] by auto
  from sc cc xs show ?thesis by (simp add: main_dashboard_def Let_def)
qed

text \<open>Rows that hold a single column.\<close>

lemma get_single: "get [c \<mapsto> v] c' = (if c' = c then v else None)"
  by (simp add: get_def)

lemma get_default_single: "get_default [c \<mapsto> v] c' d = (if c' = c then v else Some d)"
  by (simp add: get_default_def)

lemma date_row_returns:
  "site_label [''sample collection start date'' \<mapsto> v] \<noteq> None"
  "sample_field_spec_row [''sample collection start date'' \<mapsto> v] \<noteq> None"
  by (simp_all add: site_label_def sample_field_spec_row_def get_single get_default_single
      trim_brackets_empty Let_def)

lemma row_year_single:
  "row_year [''sample collection start date'' \<mapsto> Some d] =
     (if strip d \<noteq> [] then match_year (strip d) else None)"
  by (simp add: row_year_def get_single or_empty_def)

lemma row_year_examples:
  "row_year [''sample collection start date'' \<mapsto> Some ''2021-05-01''] = Some 2021"
  "row_year [''sample collection start date'' \<mapsto> Some ''2023-01-15''] = Some 2023"
  "row_year [''sample collection start date'' \<mapsto> Some ''unknown''] = None"
  by (simp_all add: row_year_single strip_def is_space_def match_year_def is_digit_def
      nat_of_digits_def)

theorem growth_series_cumulative_witness:
  "\<exists>p. main_dashboard (\<lambda>t. None) None
          [[''sample collection start date'' \<mapsto> Some ''2021-05-01''],
           [''sample collection start date'' \<mapsto> Some ''unknown''],
           [''sample collection start date'' \<mapsto> Some ''2023-01-15'']] = Some p
      \<and> p_growth p = [(2021, 1), (2022, 1), (2023, 2)]
      \<and> sorted (map snd (p_growth p))
      \<and> snd (last (p_growth p)) = 2
      \<and> p_start p = Some 2021 \<and> p_end p = Some 2023 \<and> map fst (p_growth p) = [2021..2023]
      \<and> snd (p_growth p ! 1) = snd (p_growth p ! 0)"
proof -
  define rows :: "row list" where
    "rows = [[''sample collection start date'' \<mapsto> Some ''2021-05-01''],
             [''sample collection start date'' \<mapsto> Some ''unknown''],
             [''sample collection start date'' \<mapsto> Some ''2023-01-15'']]"
  define a where "a = foldl (scan_row (load_province_coords (\<lambda>t. None) None)) acc_init rows"
  have "\<forall>r\<in>set rows. site_label r \<noteq> None \<and> sample_field_spec_row r \<noteq> None"
    by (simp add: rows_def date_row_returns del: not_None_eq)
  from main_dashboard_returns [OF this]
  obtain p where p: "main_dashboard (\<lambda>t. None) None rows = Some p" by blast
  then have fields: "p_start p = min_year a" "p_end p = max_year a" "p_growth p = growth_series a"
    by (auto elim!: main_dashboard_SomeD simp: a_def)
  have lo: "min_year a = Some 2021"
    unfolding a_def scan_min_year by (simp add: rows_def row_year_examples acc_init_def)
  have hi: "max_year a = Some 2023"
    unfolding a_def scan_max_year by (simp add: rows_def row_year_examples acc_init_def)
  have counts: "growth_by_year a = [(2021, 1), (2023, 1)]"
    unfolding a_def scan_growth_by_year
    by (simp add: rows_def row_year_examples acc_init_def bump_def)
  have growth: "p_growth p = [(2021, 1), (2022, 1), (2023, 2)]"
    by (simp add: fields growth_series_def lo hi counts count_of_def upto_rec1)
  have parsed: "length (filter (\<lambda>r. row_year r \<noteq> None) rows) = 2"
    by (simp add: rows_def row_year_examples)
  have gap: "filter (\<lambda>r. row_year r = Some (fst (p_growth p ! Suc 0))) rows = []"
    by (simp add: growth rows_def row_year_examples)
  have len: "Suc 0 < length (p_growth p)" by (simp add: growth)
  note props = growth_series_cumulative [OF p]
  from props have mono: "sorted (map snd (p_growth p))" by blast
  from props parsed have final: "snd (last (p_growth p)) = 2" by metis
  from props fields lo hi have span: "map fst (p_growth p) = [2021..2023]" by metis
  from props len gap have rep: "snd (p_growth p ! Suc 0) = snd (p_growth p ! 0)" by blast
  from p fields lo hi growth mono final span rep show ?thesis unfolding rows_def by simp
qed

text \<open>
  C1: with no date that has a year, \<open>timeSpan\<close> is \<open>null\<close>/\<open>null\<close>, but the loop
  \<open>for y in range(0, 0 + 1)\<close> still runs once: the growth series is the single point
  \<open>{"year": 0, "records": 0}\<close>, not the empty list. Shown on one record dated
  \<open>unknown\<close>.
\<close>

theorem growth_series_without_dates:
  "map_option (\<lambda>p. (p_growth p, p_start p, p_end p))
     (main_dashboard py_float province_file
        [[''sample collection start date'' \<mapsto> Some ''unknown'']])
   = Some ([(0, 0)], None, None)"
proof -
  define rows :: "row list" where
    "rows = [[''sample collection start date'' \<mapsto> Some ''unknown'']]"
  define a where "a = foldl (scan_row (load_province_coords py_float province_file)) acc_init rows"
  have "\<forall>r\<in>set rows. site_label r \<noteq> None \<and> sample_field_spec_row r \<noteq> None"
    by (simp add: rows_def date_row_returns del: not_None_eq)
  from main_dashboard_returns [OF this]
  obtain p where p: "main_dashboard py_float province_file rows = Some p" by blast
  then have fields: "p_start p = min_year a" "p_end p = max_year a" "p_growth p = growth_series a"
    by (auto elim!: main_dashboard_SomeD simp: a_def)
  have lo: "min_year a = None"
    unfolding a_def scan_min_year by (simp add: rows_def row_year_examples acc_init_def)
  have hi: "max_year a = None"
    unfolding a_def scan_max_year by (simp add: rows_def row_year_examples acc_init_def)
  have counts: "growth_by_year a = []"
    unfolding a_def scan_growth_by_year by (simp add: rows_def row_year_examples acc_init_def)
  have growth: "p_growth p = [(0, 0)]"
    by (simp add: fields growth_series_def lo hi counts count_of_def)
  with p fields lo hi show ?thesis unfolding rows_def by simp
qed

section \<open>Properties of the breakdown\<close>

lemma count_sites_labels:
  "map site_label rows = map Some labels \<Longrightarrow>
     count_sites m rows = Some (foldl (\<lambda>m s. bump s m) m labels)"
  by (induction rows arbitrary: m labels) auto

lemma count_categories_labels:
  "map site_label rows = map Some labels \<Longrightarrow>
     count_categories tops m rows =
       Some (foldl (\<lambda>m s. bump (if s \<in> set tops then s else ''Other'') m) m labels)"
  by (induction rows arbitrary: m labels) auto

lemma count_categories_total:
  "count_categories tops m rows = Some cc \<Longrightarrow>
     sum_list (map snd cc) = sum_list (map snd m) + length rows"
  by (induction rows arbitrary: m) (auto simp: sum_list_bump split: option.splits)

lemma sum_list_insort_key:
  "sum_list (map f (insort_key k x xs)) = f x + sum_list (map f xs)"
  for f :: "'a \<Rightarrow> nat"
  by (induction xs) auto

lemma sum_list_sort_key: "sum_list (map f (sort_key k xs)) = sum_list (map f xs)"
  for f :: "'a \<Rightarrow> nat"
  by (induction xs) (auto simp: sum_list_insort_key)

text \<open>In the sorted list, whatever follows an entry labelled "other" is labelled so too.\<close>

lemma breakdown_other_tail:
  assumes "i < j" "j < length (breakdown_of cc)" "lower (fst (breakdown_of cc ! i)) = ''other''"
  shows "lower (fst (breakdown_of cc ! j)) = ''other''"
proof -
  define key :: "string \<times> nat \<Rightarrow> bool \<times> int" where
    "key = (\<lambda>x. (lower (fst x) = ''other'', - int (snd x)))"
  have "sorted (map key (breakdown_of cc))"
    unfolding breakdown_of_def key_def by (rule sorted_sort_key)
  with assms(1,2) have "key (breakdown_of cc ! i) \<le> key (breakdown_of cc ! j)"
    by (auto simp: sorted_iff_nth_mono dest!: spec [of _ i] spec [of _ j])
  with assms(3) show ?thesis by (auto simp: key_def)
qed

text \<open>
  C5, amended: the counts of the breakdown add up to the number of records; the entries
  whose label reads "other" in any case stand behind all other entries, so when there is
  such an entry the last element is one.
\<close>

theorem breakdown_total_other_last:
  assumes "main_dashboard py_float province_file rows = Some p"
  shows "sum_list (map snd (p_breakdown p)) = length rows
    \<and> (\<forall>i j. i < j \<and> j < length (p_breakdown p) \<and> lower (fst (p_breakdown p ! i)) = ''other''
          \<longrightarrow> lower (fst (p_breakdown p ! j)) = ''other'')
    \<and> ((\<exists>x\<in>set (p_breakdown p). lower (fst x) = ''other'')
          \<longrightarrow> lower (fst (last (p_breakdown p))) = ''other'')"
proof -
  from assms obtain sc cc where cc: "count_categories (top_sites sc) [] rows = Some cc"
    and b: "p_breakdown p = breakdown_of cc"
    by (auto elim!: main_dashboard_SomeD)
  have total: "sum_list (map snd (p_breakdown p)) = length rows"
    using count_categories_total [OF cc] by (simp add: b breakdown_of_def sum_list_sort_key)
  have tail: "lower (fst (p_breakdown p ! j)) = ''other''"
    if "i < j" "j < length (p_breakdown p)" "lower (fst (p_breakdown p ! i)) = ''other''" for i j
    using that unfolding b by (rule breakdown_other_tail)
  have last: "lower (fst (last (p_breakdown p))) = ''other''"
    if "x \<in> set (p_breakdown p)" "lower (fst x) = ''other''" for x
  proof -
    from that(1) obtain i where i: "i < length (p_breakdown p)" "p_breakdown p ! i = x"
      by (auto simp: in_set_conv_nth)
    then have ne: "p_breakdown p \<noteq> []" by auto
    show ?thesis
    proof (cases "i = length (p_breakdown p) - 1")
      case True
      with i that(2) ne show ?thesis by (simp add: last_conv_nth)
    next
      case False
      with i have "i < length (p_breakdown p) - 1" by simp
      from tail [OF this] i that(2) ne show ?thesis by (simp add: last_conv_nth)
    qed
  qed
  from total tail last show ?thesis by blast
qed


text \<open>Rows that hold the site column only.\<close>

lemma trim_brackets_clean:
  "CHR ''['' \<notin> set v \<Longrightarrow> strip v = v \<Longrightarrow> trim_brackets (Some v) = Some v"
  by (simp add: trim_brackets_Some_eq)

lemma site_row_label:
  "CHR ''['' \<notin> set v \<Longrightarrow> strip v = v \<Longrightarrow> v \<noteq> [] \<Longrightarrow>
     site_label [''environmental site'' \<mapsto> Some v] = Some v"
  by (simp add: site_label_def get_single trim_brackets_clean or_default_def)

lemma site_row_sample:
  "CHR ''['' \<notin> set v \<Longrightarrow> strip v = v \<Longrightarrow>
     sample_field_spec_row [''environmental site'' \<mapsto> Some v] \<noteq> None"
  by (simp add: sample_field_spec_row_def get_single get_default_single trim_brackets_empty
      trim_brackets_clean Let_def)

lemma strip_letters:
  "strip ''a'' = ''a''" "strip ''b'' = ''b''" "strip ''c'' = ''c''" "strip ''d'' = ''d''"
  "strip ''e'' = ''e''" "strip ''f'' = ''f''" "strip ''g'' = ''g''" "strip ''h'' = ''h''"
  "strip ''i'' = ''i''" "strip ''other'' = ''other''"
  by (simp_all add: strip_def is_space_def)

lemma lower_letters:
  "lower ''a'' = ''a''" "lower ''b'' = ''b''" "lower ''c'' = ''c''" "lower ''d'' = ''d''"
  "lower ''e'' = ''e''" "lower ''f'' = ''f''" "lower ''g'' = ''g''" "lower ''h'' = ''h''"
  "lower ''i'' = ''i''" "lower ''other'' = ''other''"
  by (simp_all add: lower_def lower_char_def)

lemma lower_Other: "lower ''Other'' = ''other''"
  by code_simp

text \<open>
  C5, counterexample to the second half as stated: ten records on the sites \<open>other\<close>,
  \<open>a\<close>, \dots, \<open>i\<close>. The site \<open>other\<close> is one of the top eight, the sites \<open>h\<close> and \<open>i\<close>
  make the bucket \<open>Other\<close>, and the bucket, with the higher count, is sorted before the
  entry \<open>other\<close>: an entry that matches "Other" is present and is not the last element.
\<close>

theorem breakdown_other_counterexample:
  "map_option p_breakdown
     (main_dashboard (\<lambda>t. None) None
        (map (\<lambda>v. [''environmental site'' \<mapsto> Some v])
           [''other'', ''a'', ''b'', ''c'', ''d'', ''e'', ''f'', ''g'', ''h'', ''i'']))
   = Some [(''a'', 1), (''b'', 1), (''c'', 1), (''d'', 1), (''e'', 1), (''f'', 1), (''g'', 1),
           (''Other'', 2), (''other'', 1)]
   \<and> lower ''Other'' = ''other''
   \<and> last [(''a'', 1), (''b'', 1), (''c'', 1), (''d'', 1), (''e'', 1), (''f'', 1), (''g'', 1),
           (''Other'', 2), (''other'', 1 :: nat)] \<noteq> (''Other'', 2)"
proof -
  define vs where "vs = [''other'', ''a'', ''b'', ''c'', ''d'', ''e'', ''f'', ''g'', ''h'', ''i'']"
  define rows :: "row list" where "rows = map (\<lambda>v. [''environmental site'' \<mapsto> Some v]) vs"
  have labels: "map site_label rows = map Some vs"
    by (simp add: rows_def vs_def site_row_label strip_letters)
  have "\<forall>r\<in>set rows. site_label r \<noteq> None \<and> sample_field_spec_row r \<noteq> None"
    by (simp add: rows_def vs_def site_row_label site_row_sample strip_letters del: not_None_eq)
  from main_dashboard_returns [OF this]
  obtain p where p: "main_dashboard (\<lambda>t. None) None rows = Some p" by blast
  have sc: "count_sites [] rows =
      Some [(''other'', 1), (''a'', 1), (''b'', 1), (''c'', 1), (''d'', 1), (''e'', 1),
            (''f'', 1), (''g'', 1), (''h'', 1), (''i'', 1)]"
    unfolding count_sites_labels [OF labels] by (simp add: vs_def bump_def)
  have tops: "top_sites [(''other'', 1), (''a'', 1), (''b'', 1), (''c'', 1), (''d'', 1), (''e'', 1),
            (''f'', 1), (''g'', 1), (''h'', 1), (''i'', 1)]
      = [''other'', ''a'', ''b'', ''c'', ''d'', ''e'', ''f'', ''g'']"
    by (simp add: top_sites_def)
  have cc: "count_categories [''other'', ''a'', ''b'', ''c'', ''d'', ''e'', ''f'', ''g''] [] rows =
      Some [(''other'', 1), (''a'', 1), (''b'', 1), (''c'', 1), (''d'', 1), (''e'', 1),
            (''f'', 1), (''g'', 1), (''Other'', 2)]"
    unfolding count_categories_labels [OF labels] by (simp add: vs_def bump_def)
  have b: "breakdown_of [(''other'', 1), (''a'', 1), (''b'', 1), (''c'', 1), (''d'', 1), (''e'', 1),
            (''f'', 1), (''g'', 1), (''Other'', 2)]
      = [(''a'', 1), (''b'', 1), (''c'', 1), (''d'', 1), (''e'', 1), (''f'', 1), (''g'', 1),
         (''Other'', 2), (''other'', 1)]"
    by (simp add: breakdown_of_def lower_letters lower_Other)
  from p sc tops cc b
  have "p_breakdown p = [(''a'', 1), (''b'', 1), (''c'', 1), (''d'', 1), (''e'', 1), (''f'', 1),
      (''g'', 1), (''Other'', 2), (''other'', 1)]"
    by (auto elim!: main_dashboard_SomeD)
  with p show ?thesis unfolding rows_def vs_def by (simp add: lower_Other)
qed

theorem breakdown_total_other_last_witness:
  "\<exists>p. main_dashboard (\<lambda>t. None) None
          (map (\<lambda>v. [''environmental site'' \<mapsto> Some v])
             [''b'', ''a'', ''a'', ''c'', ''d'', ''e'', ''f'', ''g'', ''h'', ''i'']) = Some p
      \<and> p_breakdown p =
          [(''a'', 2), (''b'', 1), (''c'', 1), (''d'', 1), (''e'', 1), (''f'', 1), (''g'', 1),
           (''h'', 1), (''Other'', 1)]
      \<and> sum_list (map snd (p_breakdown p)) = 10
      \<and> lower (fst (last (p_breakdown p))) = ''other''"
proof -
  define vs where "vs = [''b'', ''a'', ''a'', ''c'', ''d'', ''e'', ''f'', ''g'', ''h'', ''i'']"
  define rows :: "row list" where "rows = map (\<lambda>v. [''environmental site'' \<mapsto> Some v]) vs"
  have labels: "map site_label rows = map Some vs"
    by (simp add: rows_def vs_def site_row_label strip_letters)
  have "\<forall>r\<in>set rows. site_label r \<noteq> None \<and> sample_field_spec_row r \<noteq> None"
    by (simp add: rows_def vs_def site_row_label site_row_sample strip_letters del: not_None_eq)
  from main_dashboard_returns [OF this]
  obtain p where p: "main_dashboard (\<lambda>t. None) None rows = Some p" by blast
  have sc: "count_sites [] rows =
      Some [(''b'', 1), (''a'', 2), (''c'', 1), (''d'', 1), (''e'', 1),
            (''f'', 1), (''g'', 1), (''h'', 1), (''i'', 1)]"
    unfolding count_sites_labels [OF labels] by (simp add: vs_def bump_def)
  have tops: "top_sites [(''b'', 1), (''a'', 2), (''c'', 1), (''d'', 1), (''e'', 1),
            (''f'', 1), (''g'', 1), (''h'', 1), (''i'', 1)]
      = [''a'', ''b'', ''c'', ''d'', ''e'', ''f'', ''g'', ''h'']"
    by (simp add: top_sites_def)
  have cc: "count_categories [''a'', ''b'', ''c'', ''d'', ''e'', ''f'', ''g'', ''h''] [] rows =
      Some [(''b'', 1), (''a'', 2), (''c'', 1), (''d'', 1), (''e'', 1),
            (''f'', 1), (''g'', 1), (''h'', 1), (''Other'', 1)]"
    unfolding count_categories_labels [OF labels] by (simp add: vs_def bump_def)
  have b: "breakdown_of [(''b'', 1), (''a'', 2), (''c'', 1), (''d'', 1), (''e'', 1),
            (''f'', 1), (''g'', 1), (''h'', 1), (''Other'', 1)]
      = [(''a'', 2), (''b'', 1), (''c'', 1), (''d'', 1), (''e'', 1), (''f'', 1), (''g'', 1),
         (''h'', 1), (''Other'', 1)]"
    by (simp add: breakdown_of_def lower_letters lower_Other)
  from p sc tops cc b
  have eq: "p_breakdown p = [(''a'', 2), (''b'', 1), (''c'', 1), (''d'', 1), (''e'', 1),
      (''f'', 1), (''g'', 1), (''h'', 1), (''Other'', 1)]"
    by (auto elim!: main_dashboard_SomeD)
  have present: "\<exists>x\<in>set (p_breakdown p). lower (fst x) = ''other''"
    by (simp add: eq lower_Other)
  note props = breakdown_total_other_last [OF p]
  from props have total: "sum_list (map snd (p_breakdown p)) = 10"
    by (simp add: rows_def vs_def)
  from props present have "lower (fst (last (p_breakdown p))) = ''other''" by blast
  with p eq total show ?thesis unfolding rows_def vs_def by blast
qed

section \<open>Properties of the coverage points\<close>

lemma coord_counts_fold:
  "distinct (map fst m) \<Longrightarrow>
     distinct (map fst
       (foldl (\<lambda>m r. case resolve_coord pc r of None \<Rightarrow> m | Some key \<Rightarrow> bump key m) m rs))
     \<and> sum_list (map snd
       (foldl (\<lambda>m r. case resolve_coord pc r of None \<Rightarrow> m | Some key \<Rightarrow> bump key m) m rs))
       = sum_list (map snd m) + length (filter (\<lambda>r. resolve_coord pc r \<noteq> None) rs)"
proof (induction rs arbitrary: m)
  case Nil
  then show ?case by simp
next
  case (Cons r rs)
  show ?case
  proof (cases "resolve_coord pc r")
    case None
    with Cons show ?thesis by simp
  next
    case (Some key)
    from Cons.prems have "distinct (map fst (bump key m))"
      by (simp add: bump_def distinct_upsert)
    from Cons.IH [OF this] Some show ?thesis by (simp add: sum_list_bump)
  qed
qed

lemma set_map_insort_key: "set (map g (insort_key k x xs)) = insert (g x) (set (map g xs))"
  by (induction xs) auto

lemma distinct_map_insort_key:
  "distinct (map g (insort_key k x xs)) \<longleftrightarrow> g x \<notin> set (map g xs) \<and> distinct (map g xs)"
proof (induction xs)
  case Nil
  show ?case by simp
next
  case (Cons y ys)
  show ?case
    using Cons set_map_insort_key [of g k x ys] by (cases "k x \<le> k y") auto
qed

lemma set_map_sort_key: "set (map g (sort_key k xs)) = set (map g xs)"
  by simp

lemma distinct_map_sort_key: "distinct (map g (sort_key k xs)) \<longleftrightarrow> distinct (map g xs)"
  by (induction xs) (simp_all add: distinct_map_insort_key set_map_sort_key)

lemma coverage_of_keys:
  "map ((\<lambda>pt. (fst pt, fst (snd pt))) \<circ> (\<lambda>((lat, lon), n). (lat, lon, n))) counts
     = map fst counts"
  by (induction counts) auto

lemma coverage_of_counts:
  "map ((\<lambda>pt. snd (snd pt)) \<circ> (\<lambda>((lat, lon), n). (lat, lon, n))) counts = map snd counts"
  by (induction counts) auto

text \<open>
  C6, amended: the counts of the coverage points add up to the number of records with a
  resolved coordinate, and no two points agree in the sign and the magnitude of both
  coordinates (the text of the key).
\<close>

theorem coverage_points_total_distinct:
  assumes "main_dashboard py_float province_file rows = Some p"
  shows "sum_list (map (\<lambda>pt. snd (snd pt)) (p_coverage p))
       = length (filter (\<lambda>r. resolve_coord (load_province_coords py_float province_file) r \<noteq> None)
           rows)
    \<and> distinct (map (\<lambda>pt. (fst pt, fst (snd pt))) (p_coverage p))"
proof -
  define pc where "pc = load_province_coords py_float province_file"
  define counts where "counts = coord_counts (foldl (scan_row pc) acc_init rows)"
  from assms have cov: "p_coverage p = coverage_of counts"
    by (auto elim!: main_dashboard_SomeD simp: counts_def pc_def)
  have "distinct (map fst counts) \<and>
      sum_list (map snd counts) = length (filter (\<lambda>r. resolve_coord pc r \<noteq> None) rows)"
    unfolding counts_def scan_coord_counts
    using coord_counts_fold [of "[]" pc rows] by (simp add: acc_init_def)
  then show ?thesis
    unfolding cov coverage_of_def pc_def [symmetric]
    by (simp add: sum_list_sort_key distinct_map_sort_key coverage_of_keys coverage_of_counts)
qed


text \<open>Rows that hold the two coordinate columns and the province.\<close>

lemma coord_row_resolve:
  "resolve_coord pc
     [''geo loc latitude'' \<mapsto> Some la, ''geo loc longitude'' \<mapsto> Some lo,
      ''geo loc name (state/province/territory)'' \<mapsto> Some pv]
   = (case (parse_lat_lon (Some la) ''lat'', parse_lat_lon (Some lo) ''lon'') of
        (Some a, Some b) \<Rightarrow> Some (a, b)
      | _ \<Rightarrow> if strip pv \<noteq> [] then pc (strip pv) else None)"
  by (simp add: resolve_coord_def get_def or_empty_def Let_def split: option.splits)

lemma coord_row_returns:
  assumes "CHR ''['' \<notin> set pv" "strip pv = pv"
  shows "site_label
      [''geo loc latitude'' \<mapsto> Some la, ''geo loc longitude'' \<mapsto> Some lo,
       ''geo loc name (state/province/territory)'' \<mapsto> Some pv] \<noteq> None"
    and "sample_field_spec_row
      [''geo loc latitude'' \<mapsto> Some la, ''geo loc longitude'' \<mapsto> Some lo,
       ''geo loc name (state/province/territory)'' \<mapsto> Some pv] \<noteq> None"
  using assms
  by (simp_all add: site_label_def sample_field_spec_row_def get_def get_default_def
      trim_brackets_empty trim_brackets_clean Let_def)

lemma strip_coords:
  "strip ''0'' = ''0''" "strip ''-0'' = ''-0''" "strip ''10'' = ''10''"
  "strip ''75.5 W'' = ''75.5 W''" "strip ''Ontario'' = ''Ontario''"
  "strip ''Quebec'' = ''Quebec''" "strip ''Yukon'' = ''Yukon''"
  "strip ''Ontario [CA-ON]'' = ''Ontario [CA-ON]''"
  "strip ''0.1'' = ''0.1''" "strip ''0.10000000000000001'' = ''0.10000000000000001''"
  by (simp_all add: strip_def is_space_def)

lemma lower_coords:
  "lower ''0'' = ''0''" "lower ''-0'' = ''-0''" "lower ''10'' = ''10''"
  "lower ''75.5 W'' = ''75.5 w''"
  "lower ''0.1'' = ''0.1''" "lower ''0.10000000000000001'' = ''0.10000000000000001''"
  by code_simp+

lemma re_match_coord_coords:
  "re_match_coord ''0'' = Some (False, ''0'', [], None)"
  "re_match_coord ''-0'' = Some (True, ''0'', [], None)"
  "re_match_coord ''10'' = Some (False, ''10'', [], None)"
  "re_match_coord ''75.5 W'' = Some (False, ''75'', ''5'', Some CHR ''W'')"
  "re_match_coord ''0.1'' = Some (False, ''0'', ''1'', None)"
  "re_match_coord ''0.10000000000000001'' = Some (False, ''0'', ''10000000000000001'', None)"
  by (simp_all add: re_match_coord_def is_digit_def is_space_def)

lemma float_of_decimal_coords:
  "float_of_decimal False ''0'' [] = PyFloat False 0"
  "float_of_decimal True ''0'' [] = PyFloat True 0"
  "float_of_decimal False ''10'' [] = PyFloat False 10"
  "float_of_decimal False ''75'' ''5'' = PyFloat False 75.5"
  "float_of_decimal False ''0'' ''1'' = PyFloat False (3602879701896397 / 36028797018963968)"
  "float_of_decimal False ''0'' ''10000000000000001''
     = PyFloat False (3602879701896397 / 36028797018963968)"
  by (simp_all add: float_of_decimal_def nat_of_digits_def double_of_fraction_def
      floor_log2_def round_half_even_def Let_def)

lemma parse_lat_lon_coords:
  "parse_lat_lon (Some ''0'') ''lat'' = Some (PyFloat False 0)"
  "parse_lat_lon (Some ''-0'') ''lat'' = Some (PyFloat True 0)"
  "parse_lat_lon (Some ''10'') ''lon'' = Some (PyFloat False 10)"
  "parse_lat_lon (Some ''45.5 N'') ''lat'' = Some (PyFloat False 45.5)"
  "parse_lat_lon (Some ''75.5 W'') ''lon'' = Some (PyFloat True 75.5)"
  "parse_lat_lon (Some []) ''lat'' = None"
  "parse_lat_lon (Some []) ''lon'' = None"
  "parse_lat_lon (Some ''--'') ''lat'' = None"
  "parse_lat_lon (Some ''0.1'') ''lat'' = Some (PyFloat False (3602879701896397 / 36028797018963968))"
  "parse_lat_lon (Some ''0.10000000000000001'') ''lat''
     = Some (PyFloat False (3602879701896397 / 36028797018963968))"
  by (simp_all add: parse_lat_lon_def strip_examples lower_examples re_match_coord_examples
      float_of_decimal_examples strip_coords lower_coords re_match_coord_coords
      float_of_decimal_coords fabs_def fneg_def fval_def below_def above_def)

text \<open>
  C6, counterexample to the second half as stated: the latitudes \<open>0\<close> and \<open>-0\<close> are read
  as \<open>0.0\<close> and \<open>-0.0\<close>, whose texts differ, so two points are emitted; as numbers their
  coordinates are the same pair.
\<close>

theorem coverage_points_signed_zero_counterexample:
  "map_option p_coverage
     (main_dashboard (\<lambda>t. None) None
        (map (\<lambda>(la, lo, pv).
                [''geo loc latitude'' \<mapsto> Some la, ''geo loc longitude'' \<mapsto> Some lo,
                 ''geo loc name (state/province/territory)'' \<mapsto> Some pv])
           [(''0'', ''10'', []), (''-0'', ''10'', [])]))
   = Some [(PyFloat False 0, PyFloat False 10, 1), (PyFloat True 0, PyFloat False 10, 1)]
   \<and> fval (PyFloat False 0) = fval (PyFloat True 0)"
proof -
  define rows :: "row list" where
    "rows = map (\<lambda>(la, lo, pv).
                [''geo loc latitude'' \<mapsto> Some la, ''geo loc longitude'' \<mapsto> Some lo,
                 ''geo loc name (state/province/territory)'' \<mapsto> Some pv])
           [(''0'', ''10'', []), (''-0'', ''10'', [])]"
  define a where "a = foldl (scan_row (load_province_coords (\<lambda>t. None) None)) acc_init rows"
  have "\<forall>r\<in>set rows. site_label r \<noteq> None \<and> sample_field_spec_row r \<noteq> None"
    by (simp add: rows_def coord_row_returns strip_examples del: not_None_eq)
  from main_dashboard_returns [OF this]
  obtain p where p: "main_dashboard (\<lambda>t. None) None rows = Some p" by blast
  then have cov: "p_coverage p = coverage_of (coord_counts a)"
    by (auto elim!: main_dashboard_SomeD simp: a_def)
  have "coord_counts a =
      [((PyFloat False 0, PyFloat False 10), 1), ((PyFloat True 0, PyFloat False 10), 1)]"
    unfolding a_def scan_coord_counts
    by (simp add: rows_def coord_row_resolve parse_lat_lon_coords acc_init_def bump_def
        strip_examples)
  then have "p_coverage p =
      [(PyFloat False 0, PyFloat False 10, 1), (PyFloat True 0, PyFloat False 10, 1)]"
    by (simp add: cov coverage_of_def)
  with p show ?thesis unfolding rows_def by (simp add: fval_def)
qed

lemma province_table_example:
  "load_province_coords
     (\<lambda>t. if t = ''43.5'' then Some (PyFloat False 43.5)
           else if t = ''-79.5'' then Some (PyFloat True 79.5) else None)
     (Some [[''Province'' \<mapsto> Some ''Ontario [CA-ON]'', ''Latitude'' \<mapsto> Some ''43.5'',
             ''Longitude'' \<mapsto> Some ''-79.5'']])
   = [''Ontario [CA-ON]'' \<mapsto> (PyFloat False 43.5, PyFloat True 79.5),
      ''Ontario'' \<mapsto> (PyFloat False 43.5, PyFloat True 79.5)]"
  by (simp add: load_province_coords_def register_province_def float_field_def get_def
      or_empty_def strip_coords Let_def)

theorem coverage_points_total_distinct_witness:
  "\<exists>p. main_dashboard
          (\<lambda>t. if t = ''43.5'' then Some (PyFloat False 43.5)
                else if t = ''-79.5'' then Some (PyFloat True 79.5) else None)
          (Some [[''Province'' \<mapsto> Some ''Ontario [CA-ON]'', ''Latitude'' \<mapsto> Some ''43.5'',
                  ''Longitude'' \<mapsto> Some ''-79.5'']])
          (map (\<lambda>(la, lo, pv).
                  [''geo loc latitude'' \<mapsto> Some la, ''geo loc longitude'' \<mapsto> Some lo,
                   ''geo loc name (state/province/territory)'' \<mapsto> Some pv])
             [(''45.5 N'', ''75.5 W'', []), ([], [], ''Ontario''),
              (''45.5 N'', ''75.5 W'', ''Quebec''), (''--'', [], ''Yukon''),
              (''0.1'', ''10'', []), (''0.10000000000000001'', ''10'', [])]) = Some p
      \<and> p_coverage p =
          [(PyFloat False 45.5, PyFloat True 75.5, 2),
           (PyFloat False (3602879701896397 / 36028797018963968), PyFloat False 10, 2),
           (PyFloat False 43.5, PyFloat True 79.5, 1)]
      \<and> sum_list (map (\<lambda>pt. snd (snd pt)) (p_coverage p)) = 5
      \<and> distinct (map (\<lambda>pt. (fst pt, fst (snd pt))) (p_coverage p))"
proof -
  define f :: "string \<Rightarrow> pyfloat option" where
    "f = (\<lambda>t. if t = ''43.5'' then Some (PyFloat False 43.5)
               else if t = ''-79.5'' then Some (PyFloat True 79.5) else None)"
  define pfile :: "row list option" where
    "pfile = Some [[''Province'' \<mapsto> Some ''Ontario [CA-ON]'', ''Latitude'' \<mapsto> Some ''43.5'',
                   ''Longitude'' \<mapsto> Some ''-79.5'']]"
  define rows :: "row list" where
    "rows = map (\<lambda>(la, lo, pv).
                  [''geo loc latitude'' \<mapsto> Some la, ''geo loc longitude'' \<mapsto> Some lo,
                   ''geo loc name (state/province/territory)'' \<mapsto> Some pv])
             [(''45.5 N'', ''75.5 W'', []), ([], [], ''Ontario''),
              (''45.5 N'', ''75.5 W'', ''Quebec''), (''--'', [], ''Yukon''),
              (''0.1'', ''10'', []), (''0.10000000000000001'', ''10'', [])]"
  define pc where "pc = load_province_coords f pfile"
  define a where "a = foldl (scan_row pc) acc_init rows"
  have table: "pc = [''Ontario [CA-ON]'' \<mapsto> (PyFloat False 43.5, PyFloat True 79.5),
      ''Ontario'' \<mapsto> (PyFloat False 43.5, PyFloat True 79.5)]"
    unfolding pc_def f_def pfile_def by (rule province_table_example)
  have "\<forall>r\<in>set rows. site_label r \<noteq> None \<and> sample_field_spec_row r \<noteq> None"
    by (simp add: rows_def coord_row_returns strip_coords strip_examples del: not_None_eq)
  from main_dashboard_returns [OF this]
  obtain p where p: "main_dashboard f pfile rows = Some p" by blast
  then have cov: "p_coverage p = coverage_of (coord_counts a)"
    by (auto elim!: main_dashboard_SomeD simp: a_def pc_def)
  have resolved: "map (resolve_coord pc) rows =
      [Some (PyFloat False 45.5, PyFloat True 75.5), Some (PyFloat False 43.5, PyFloat True 79.5),
       Some (PyFloat False 45.5, PyFloat True 75.5), None,
       Some (PyFloat False (3602879701896397 / 36028797018963968), PyFloat False 10),
       Some (PyFloat False (3602879701896397 / 36028797018963968), PyFloat False 10)]"
    by (simp add: rows_def coord_row_resolve parse_lat_lon_coords strip_coords table
        strip_examples)
  have "coord_counts a =
      [((PyFloat False 45.5, PyFloat True 75.5), 2), ((PyFloat False 43.5, PyFloat True 79.5), 1),
       ((PyFloat False (3602879701896397 / 36028797018963968), PyFloat False 10), 2)]"
    unfolding a_def scan_coord_counts
    using resolved by (simp add: rows_def acc_init_def bump_def)
  then have eq: "p_coverage p =
      [(PyFloat False 45.5, PyFloat True 75.5, 2),
       (PyFloat False (3602879701896397 / 36028797018963968), PyFloat False 10, 2),
       (PyFloat False 43.5, PyFloat True 79.5, 1)]"
    by (simp add: cov coverage_of_def)
  have count: "length (filter (\<lambda>r. resolve_coord pc r \<noteq> None) rows) = 5"
    using resolved by (simp add: rows_def)
  note props = coverage_points_total_distinct [OF p]
  from props count have total: "sum_list (map (\<lambda>pt. snd (snd pt)) (p_coverage p)) = 5"
    by (simp add: pc_def)
  from props have "distinct (map (\<lambda>pt. (fst pt, fst (snd pt))) (p_coverage p))" by blast
  with p eq total show ?thesis unfolding rows_def f_def pfile_def by blast
qed

section \<open>Properties of the province coordinate table\<close>

text \<open>An entry writes its keys over the table it is given, whatever that table holds.\<close>

lemma register_province_add:
  "register_province py_float coords r = coords ++ register_province py_float Map.empty r"
  by (auto simp: register_province_def Let_def fun_eq_iff map_add_def split: option.splits)

lemma register_province_keeps:
  "register_province py_float Map.empty r k = None \<Longrightarrow>
     register_province py_float coords r k = coords k"
  by (subst register_province_add) (simp add: map_add_def)

lemma load_keeps:
  "\<forall>r\<in>set rs. register_province py_float Map.empty r k = None \<Longrightarrow>
     foldl (register_province py_float) coords rs k = coords k"
  by (induction rs arbitrary: coords) (simp_all add: register_province_keeps)

lemma strip_starts: "strip s = c # cs \<Longrightarrow> \<not> is_space c"
proof -
  assume eq: "strip s = c # cs"
  define u where "u = dropWhile is_space s"
  from eq have "rev (dropWhile is_space (rev u)) = c # cs" by (simp add: strip_def u_def)
  then have "dropWhile is_space (rev u) = rev cs @ [c]" by (simp add: rev_swap)
  then have "rev u = takeWhile is_space (rev u) @ rev cs @ [c]"
    by (metis takeWhile_dropWhile_id)
  then have "u = c # cs @ rev (takeWhile is_space (rev u))"
    by (simp add: rev_swap)
  then have "hd u = c" "u \<noteq> []" by (metis list.sel(1), metis list.distinct(1))
  then show ?thesis using hd_dropWhile [of is_space s] by (simp add: u_def)
qed

lemma strip_keeps_start: "\<not> is_space c \<Longrightarrow> strip (c # cs) \<noteq> []"
proof -
  assume c: "\<not> is_space c"
  then have "dropWhile is_space (rev cs @ [c]) \<noteq> []"
    by (simp add: dropWhile_eq_Nil_conv)
  with c show ?thesis by (simp add: strip_def)
qed

lemma short_name_nonempty:
  assumes "name = strip s" "name \<noteq> []"
  shows "strip (before_sep name) \<noteq> []"
proof -
  from assms obtain c cs where name: "strip s = c # cs" by (cases "strip s") auto
  then have c: "\<not> is_space c" by (rule strip_starts)
  then have "c \<noteq> CHR '' ''" by (auto simp: is_space_def)
  then have "before_sep (c # cs) = c # before_sep cs" by simp
  with c assms(1) name show ?thesis by (simp add: strip_keeps_start)
qed

lemma register_province_writes:
  assumes "name = strip (or_empty (get r ''Province''))" "name \<noteq> []"
    and "float_field py_float r ''Latitude'' = Some lat"
    and "float_field py_float r ''Longitude'' = Some lon"
    and "k = name \<or> k = strip (before_sep name)"
  shows "register_province py_float coords r k = Some (lat, lon)"
  using assms short_name_nonempty [OF assms(1,2)] by (auto simp: register_province_def Let_def)

text \<open>
  C10, amended: an entry with a non-empty name and parseable latitude and longitude is
  found in the loaded table under its full name and under the text before the first
  \<open>" ["\<close> of the name, each with the entry's coordinate, unless a later entry of the table
  writes that key (the last entry that writes a key wins).
\<close>

theorem load_province_coords_registers:
  assumes "name = strip (or_empty (get r ''Province''))" "name \<noteq> []"
    and "float_field py_float r ''Latitude'' = Some lat"
    and "float_field py_float r ''Longitude'' = Some lon"
    and "k = name \<or> k = strip (before_sep name)"
    and "\<forall>r'\<in>set later. register_province py_float Map.empty r' k = None"
  shows "load_province_coords py_float (Some (earlier @ r # later)) k = Some (lat, lon)"
proof -
  define coords where "coords = foldl (register_province py_float) Map.empty earlier"
  have "load_province_coords py_float (Some (earlier @ r # later)) k
      = foldl (register_province py_float) (register_province py_float coords r) later k"
    by (simp add: load_province_coords_def coords_def)
  also have "\<dots> = register_province py_float coords r k"
    using assms(6) by (rule load_keeps)
  also have "\<dots> = Some (lat, lon)"
    using assms(1-5) by (rule register_province_writes)
  finally show ?thesis .
qed

theorem load_province_coords_registers_witness:
  "load_province_coords
     (\<lambda>t. if t = ''43.65'' then Some (PyFloat False 43.65)
           else if t = ''-79.38'' then Some (PyFloat True 79.38) else None)
     (Some [[''Province'' \<mapsto> Some ''Ontario [CA-ON]'', ''Latitude'' \<mapsto> Some ''43.65'',
             ''Longitude'' \<mapsto> Some ''-79.38'']]) ''Ontario [CA-ON]''
     = Some (PyFloat False 43.65, PyFloat True 79.38)
   \<and> load_province_coords
     (\<lambda>t. if t = ''43.65'' then Some (PyFloat False 43.65)
           else if t = ''-79.38'' then Some (PyFloat True 79.38) else None)
     (Some [[''Province'' \<mapsto> Some ''Ontario [CA-ON]'', ''Latitude'' \<mapsto> Some ''43.65'',
             ''Longitude'' \<mapsto> Some ''-79.38'']]) ''Ontario''
     = Some (PyFloat False 43.65, PyFloat True 79.38)"
proof -
  define f :: "string \<Rightarrow> pyfloat option" where
    "f = (\<lambda>t. if t = ''43.65'' then Some (PyFloat False 43.65)
               else if t = ''-79.38'' then Some (PyFloat True 79.38) else None)"
  define r :: row where
    "r = [''Province'' \<mapsto> Some ''Ontario [CA-ON]'', ''Latitude'' \<mapsto> Some ''43.65'',
          ''Longitude'' \<mapsto> Some ''-79.38'']"
  have name: "''Ontario [CA-ON]'' = strip (or_empty (get r ''Province''))"
    by (simp add: r_def get_def or_empty_def strip_coords)
  have lat: "float_field f r ''Latitude'' = Some (PyFloat False 43.65)"
    and lon: "float_field f r ''Longitude'' = Some (PyFloat True 79.38)"
    by (simp_all add: float_field_def r_def f_def)
  have "load_province_coords f (Some ([] @ r # [])) ''Ontario [CA-ON]''
      = Some (PyFloat False 43.65, PyFloat True 79.38)"
    by (rule load_province_coords_registers [OF name _ lat lon]) simp_all
  moreover have "load_province_coords f (Some ([] @ r # [])) ''Ontario''
      = Some (PyFloat False 43.65, PyFloat True 79.38)"
    by (rule load_province_coords_registers [OF name _ lat lon]) (simp_all add: strip_coords)
  ultimately show ?thesis unfolding f_def r_def by simp
qed

text \<open>
  C10, counterexample to the claim as stated: the table lists \<open>Ontario [CA-ON]\<close> and then
  \<open>Ontario\<close>, with different coordinates. The second entry overwrites the short key of
  the first, and the two forms of the first entry's name resolve to different coordinates.
\<close>

theorem load_province_coords_overwrite_counterexample:
  "load_province_coords
     (\<lambda>t. if t = ''1'' then Some (PyFloat False 1) else if t = ''2'' then Some (PyFloat False 2)
           else if t = ''3'' then Some (PyFloat False 3)
           else if t = ''4'' then Some (PyFloat False 4) else None)
     (Some [[''Province'' \<mapsto> Some ''Ontario [CA-ON]'', ''Latitude'' \<mapsto> Some ''1'',
             ''Longitude'' \<mapsto> Some ''2''],
            [''Province'' \<mapsto> Some ''Ontario'', ''Latitude'' \<mapsto> Some ''3'',
             ''Longitude'' \<mapsto> Some ''4'']]) ''Ontario [CA-ON]''
     = Some (PyFloat False 1, PyFloat False 2)
   \<and> load_province_coords
     (\<lambda>t. if t = ''1'' then Some (PyFloat False 1) else if t = ''2'' then Some (PyFloat False 2)
           else if t = ''3'' then Some (PyFloat False 3)
           else if t = ''4'' then Some (PyFloat False 4) else None)
     (Some [[''Province'' \<mapsto> Some ''Ontario [CA-ON]'', ''Latitude'' \<mapsto> Some ''1'',
             ''Longitude'' \<mapsto> Some ''2''],
            [''Province'' \<mapsto> Some ''Ontario'', ''Latitude'' \<mapsto> Some ''3'',
             ''Longitude'' \<mapsto> Some ''4'']]) ''Ontario''
     = Some (PyFloat False 3, PyFloat False 4)"
proof -
  define f :: "string \<Rightarrow> pyfloat option" where
    "f = (\<lambda>t. if t = ''1'' then Some (PyFloat False 1) else if t = ''2'' then Some (PyFloat False 2)
           else if t = ''3'' then Some (PyFloat False 3)
           else if t = ''4'' then Some (PyFloat False 4) else None)"
  have first: "register_province f Map.empty
      [''Province'' \<mapsto> Some ''Ontario [CA-ON]'', ''Latitude'' \<mapsto> Some ''1'',
       ''Longitude'' \<mapsto> Some ''2'']
    = [''Ontario [CA-ON]'' \<mapsto> (PyFloat False 1, PyFloat False 2),
       ''Ontario'' \<mapsto> (PyFloat False 1, PyFloat False 2)]"
    by (simp add: register_province_def float_field_def get_def or_empty_def strip_coords f_def)
  have second: "register_province f m
      [''Province'' \<mapsto> Some ''Ontario'', ''Latitude'' \<mapsto> Some ''3'',
       ''Longitude'' \<mapsto> Some ''4'']
    = m(''Ontario'' \<mapsto> (PyFloat False 3, PyFloat False 4))" for m
    by (simp add: register_province_def float_field_def get_def or_empty_def strip_coords f_def)
  show ?thesis
    unfolding f_def [symmetric] by (simp add: load_province_coords_def first second)
qed

section \<open>Properties of the target expansion and the empty-target filter\<close>

lemma foldl_update_lookup:
  "foldl (\<lambda>m b. m(b \<mapsto> g b)) m0 bs k = (if k \<in> set bs then Some (g k) else m0 k)"
  by (induction bs rule: rev_induct) auto

lemma expand_row_target_field:
  "base \<in> set TARGET_BASE_NAMES \<Longrightarrow>
     expand_row meta_ok r n base = Some (strip (or_empty (get r (base @ '' '' @ str_slot n))))"
  by (simp add: expand_row_def Let_def foldl_update_lookup)

lemma expand_row_slot: "expand_row meta_ok r n ''target'' = Some (str_slot n)"
  by (simp add: expand_row_def Let_def foldl_update_lookup TARGET_BASE_NAMES_def)

lemma str_slot_123:
  "str_slot 1 = ''1''" "str_slot (Suc 0) = ''1''" "str_slot 2 = ''2''" "str_slot 3 = ''3''"
  by code_simp+

lemma has_target_info_expand_row:
  "has_target_info (expand_row meta_ok r n) \<longleftrightarrow>
     (\<exists>base\<in>set TARGET_BASE_NAMES. strip (or_empty (get r (base @ '' '' @ str_slot n))) \<noteq> [])"
proof -
  have "strip (or_empty (expand_row meta_ok r n base))
      = strip (or_empty (get r (base @ '' '' @ str_slot n)))"
    if "base \<in> set TARGET_BASE_NAMES" for base
    using that by (simp add: expand_row_target_field or_empty_def strip_idem)
  then show ?thesis by (auto simp: has_target_info_def list_ex_iff)
qed

text \<open>
  C9: a record gives three sub-records, for the slots 1, 2 and 3 in this order, each
  holding the stripped columns of its slot under the seven base names; a sub-record
  passes the filter exactly when one of these seven fields is not empty after stripping.
\<close>

theorem expand_three_filter_nonempty:
  "length (expand meta_ok rows) = 3 * length rows
   \<and> expand meta_ok (r # rows) =
       [expand_row meta_ok r 1, expand_row meta_ok r 2, expand_row meta_ok r 3]
         @ expand meta_ok rows
   \<and> map (\<lambda>sub. sub ''target'') (expand meta_ok [r]) = [Some ''1'', Some ''2'', Some ''3'']
   \<and> length TARGET_BASE_NAMES = 7
   \<and> (\<forall>base\<in>set TARGET_BASE_NAMES.
        expand_row meta_ok r n base = Some (strip (or_empty (get r (base @ '' '' @ str_slot n)))))
   \<and> (has_target_info (expand_row meta_ok r n) \<longleftrightarrow>
        (\<exists>base\<in>set TARGET_BASE_NAMES. strip (or_empty (expand_row meta_ok r n base)) \<noteq> []))
   \<and> (has_target_info (expand_row meta_ok r n) \<longleftrightarrow>
        (\<exists>base\<in>set TARGET_BASE_NAMES.
           strip (or_empty (get r (base @ '' '' @ str_slot n))) \<noteq> []))
   \<and> (sub \<in> set (surviving fieldnames rows) \<longleftrightarrow>
        sub \<in> set (expand (filter (\<lambda>c. c \<in> set fieldnames) METADATA_COLUMNS) rows)
        \<and> (\<exists>base\<in>set TARGET_BASE_NAMES. strip (or_empty (sub base)) \<noteq> []))"
proof (intro conjI)
  show "length (expand meta_ok rows) = 3 * length rows"
    by (induction rows) (simp_all add: expand_def)
  show "expand meta_ok (r # rows) =
      [expand_row meta_ok r 1, expand_row meta_ok r 2, expand_row meta_ok r 3]
        @ expand meta_ok rows"
    by (simp add: expand_def)
  show "map (\<lambda>sub. sub ''target'') (expand meta_ok [r]) = [Some ''1'', Some ''2'', Some ''3'']"
    by (simp add: expand_def expand_row_slot str_slot_123)
  show "length TARGET_BASE_NAMES = 7"
    by (simp add: TARGET_BASE_NAMES_def)
  show "\<forall>base\<in>set TARGET_BASE_NAMES.
      expand_row meta_ok r n base = Some (strip (or_empty (get r (base @ '' '' @ str_slot n))))"
    by (simp add: expand_row_target_field)
  show "has_target_info (expand_row meta_ok r n) \<longleftrightarrow>
      (\<exists>base\<in>set TARGET_BASE_NAMES. strip (or_empty (expand_row meta_ok r n base)) \<noteq> [])"
    by (simp add: has_target_info_def list_ex_iff)
  show "has_target_info (expand_row meta_ok r n) \<longleftrightarrow>
      (\<exists>base\<in>set TARGET_BASE_NAMES. strip (or_empty (get r (base @ '' '' @ str_slot n))) \<noteq> [])"
    by (rule has_target_info_expand_row)
  show "sub \<in> set (surviving fieldnames rows) \<longleftrightarrow>
      sub \<in> set (expand (filter (\<lambda>c. c \<in> set fieldnames) METADATA_COLUMNS) rows)
      \<and> (\<exists>base\<in>set TARGET_BASE_NAMES. strip (or_empty (sub base)) \<noteq> [])"
    by (auto simp: surviving_def has_target_info_def list_ex_iff)
qed


theorem expand_three_filter_nonempty_witness:
  "length (expand [] [[''gene symbol 1'' \<mapsto> Some '' N1 '',
                       ''diagnostic measurement value 2'' \<mapsto> Some ''  '']]) = 3
   \<and> expand_row [] [''gene symbol 1'' \<mapsto> Some '' N1 '',
                      ''diagnostic measurement value 2'' \<mapsto> Some ''  ''] 1 ''gene symbol''
       = Some ''N1''
   \<and> has_target_info
       (expand_row [] [''gene symbol 1'' \<mapsto> Some '' N1 '',
                       ''diagnostic measurement value 2'' \<mapsto> Some ''  ''] 1)
   \<and> \<not> has_target_info
       (expand_row [] [''gene symbol 1'' \<mapsto> Some '' N1 '',
                       ''diagnostic measurement value 2'' \<mapsto> Some ''  ''] 2)
   \<and> \<not> has_target_info
       (expand_row [] [''gene symbol 1'' \<mapsto> Some '' N1 '',
                       ''diagnostic measurement value 2'' \<mapsto> Some ''  ''] 3)"
proof -
  define r :: row where
    "r = [''gene symbol 1'' \<mapsto> Some '' N1 '', ''diagnostic measurement value 2'' \<mapsto> Some ''  '']"
  have strips: "strip '' N1 '' = ''N1''" "strip ''  '' = []" "strip [] = []"
    by (simp_all add: strip_def is_space_def)
  have fields: "map (\<lambda>base. strip (or_empty (get r (base @ '' '' @ str_slot n)))) TARGET_BASE_NAMES
      = (if n = 1 then [[], [], ''N1'', [], [], [], []] else [[], [], [], [], [], [], []])"
    if "n \<in> {1, 2, 3}" for n
    using that
    by (auto simp: TARGET_BASE_NAMES_def r_def get_def or_empty_def str_slot_123 strips)
  have ex: "(\<exists>base\<in>set TARGET_BASE_NAMES. strip (or_empty (get r (base @ '' '' @ str_slot n))) \<noteq> [])
      \<longleftrightarrow> n = 1" if "n \<in> {1, 2, 3}" for n
  proof -
    have "(\<exists>base\<in>set TARGET_BASE_NAMES. strip (or_empty (get r (base @ '' '' @ str_slot n))) \<noteq> [])
        \<longleftrightarrow> (\<exists>x\<in>set (map (\<lambda>base. strip (or_empty (get r (base @ '' '' @ str_slot n))))
              TARGET_BASE_NAMES). x \<noteq> [])"
      by auto
    then show ?thesis unfolding fields [OF that] by simp
  qed
  note props = expand_three_filter_nonempty [of "[]" "[r]" r _ _ "[]"]
  from props have len: "length (expand [] [r]) = 3" by simp
  have iff: "has_target_info (expand_row [] r n) \<longleftrightarrow>
      (\<exists>base\<in>set TARGET_BASE_NAMES. strip (or_empty (get r (base @ '' '' @ str_slot n))) \<noteq> [])"
    for n
    using props [of n] by blast
  have field: "\<forall>base\<in>set TARGET_BASE_NAMES.
      expand_row [] r 1 base = Some (strip (or_empty (get r (base @ '' '' @ str_slot 1))))"
    using props [of 1] by blast
  have "''gene symbol'' \<in> set TARGET_BASE_NAMES" by (simp add: TARGET_BASE_NAMES_def)
  with field have "expand_row [] r 1 ''gene symbol''
      = Some (strip (or_empty (get r (''gene symbol'' @ '' '' @ str_slot 1))))"
    by blast
  then have gene: "expand_row [] r 1 ''gene symbol'' = Some ''N1''"
    by (simp add: r_def get_def or_empty_def str_slot_123 strips)
  have one: "has_target_info (expand_row [] r 1)" unfolding iff using ex [of 1] by simp
  have two: "\<not> has_target_info (expand_row [] r 2)" unfolding iff using ex [of 2] by simp
  have three: "\<not> has_target_info (expand_row [] r 3)" unfolding iff using ex [of 3] by simp
  from len gene one two three show ?thesis unfolding r_def by simp
qed

section \<open>Properties of the nested tree\<close>

lemma list_all_upsert:
  assumes "list_all (\<lambda>item. P (snd item)) m" "P d" "\<And>x. P x \<Longrightarrow> P (f x)"
  shows "list_all (\<lambda>item. P (snd item)) (upsert k f d m)"
  using assms by (induction m) auto

lemma shaped_fresh: "shaped (length ks) (fresh ks)"
  by (cases ks) (simp_all add: fresh_def)

lemma nest_at_fresh:
  "length qs = length ks \<Longrightarrow> nest_at qs (fresh ks) = (if ks = [] then Some [] else None)"
  by (cases ks; cases qs) (simp_all add: fresh_def)

lemma shaped_child:
  "shaped (Suc n) (Node items) \<Longrightarrow> map_of items k = Some t \<Longrightarrow> shaped n t"
  by (auto simp: list_all_iff dest!: map_of_SomeD)

text \<open>
  Inserting a value at a path keeps the shape, appends the value to the list under that
  path and leaves the lists under the other paths alone.
\<close>

lemma insert_path_shaped:
  "shaped (length p) t \<Longrightarrow> shaped (length p) (insert_path p v t)"
proof (induction p arbitrary: t)
  case Nil
  then show ?case by (cases t) simp_all
next
  case (Cons k ks)
  from Cons.prems obtain items where t: "t = Node items" by (cases t) simp_all
  with Cons.prems have d: "distinct (map fst items)"
    and kids: "list_all (\<lambda>item. shaped (length ks) (snd item)) items" by simp_all
  have "list_all (\<lambda>item. shaped (length ks) (snd item))
      (upsert k (insert_path ks v) (fresh ks) items)"
    using kids shaped_fresh Cons.IH by (rule list_all_upsert)
  with d show ?case by (simp add: t distinct_upsert)
qed

lemma insert_path_lookup:
  "shaped (length p) t \<Longrightarrow> length q = length p \<Longrightarrow>
     nest_at q (insert_path p v t) =
       (if q = p then Some ((case nest_at q t of None \<Rightarrow> [] | Some xs \<Rightarrow> xs) @ [v])
        else nest_at q t)"
proof (induction p arbitrary: t q)
  case Nil
  then show ?case by (cases t) simp_all
next
  case (Cons k ks)
  from Cons.prems(1) obtain items where t: "t = Node items" by (cases t) simp_all
  from Cons.prems(2) obtain k' qs where q: "q = k' # qs" and len: "length qs = length ks"
    by (cases q) simp_all
  show ?case
  proof (cases "k' = k")
    case False
    then show ?thesis by (simp add: t q map_of_upsert)
  next
    case True
    define child where
      "child = (case map_of items k of None \<Rightarrow> fresh ks | Some x \<Rightarrow> x)"
    have sh: "shaped (length ks) child"
      using Cons.prems(1) shaped_child [of "length ks" items k]
      by (auto simp: child_def t shaped_fresh split: option.splits)
    have new: "nest_at q (insert_path (k # ks) v t) = nest_at qs (insert_path ks v child)"
      by (simp add: t q True map_of_upsert child_def)
    have old: "nest_at q t = (if map_of items k = None then None else nest_at qs child)"
      by (auto simp: t q True child_def)
    have fresh_case: "map_of items k = None \<Longrightarrow>
        nest_at qs child = (if ks = [] then Some [] else None)"
      using nest_at_fresh [OF len] by (simp add: child_def)
    from Cons.IH [OF sh len]
    show ?thesis
      unfolding new old using fresh_case len
      by (cases "map_of items k = None") (auto simp: q True)
  qed
qed

text \<open>The tree built from the sub-records \<open>subs\<close>, in their order.\<close>

lemma length_path_vals: "length (path_vals r) = 8"
  by (simp add: path_vals_def NEST_ORDER_def)

lemma build_nested_lookup:
  "shaped 8 (build_nested subs) \<and>
   (\<forall>q. length q = 8 \<longrightarrow>
      nest_at q (build_nested subs) =
        (if filter (\<lambda>r. path_vals r = q) subs = [] then None
         else Some (map value_val (filter (\<lambda>r. path_vals r = q) subs))))"
proof (induction subs rule: rev_induct)
  case Nil
  have "(8::nat) = Suc 7" by simp
  then have "shaped 8 (Node [])" by (simp only: shaped.simps) simp
  moreover have "nest_at q (Node []) = None" if "length q = 8" for q
    using that by (cases q) simp_all
  ultimately show ?case by (simp add: build_nested_def)
next
  case (snoc r subs)
  define t where "t = build_nested subs"
  have step: "build_nested (subs @ [r]) = insert_path (path_vals r) (value_val r) t"
    by (simp add: build_nested_def t_def)
  from snoc have sh: "shaped (length (path_vals r)) t"
    and look: "\<And>q. length q = 8 \<Longrightarrow> nest_at q t =
        (if filter (\<lambda>r. path_vals r = q) subs = [] then None
         else Some (map value_val (filter (\<lambda>r. path_vals r = q) subs)))"
    by (simp_all add: t_def length_path_vals)
  have "shaped 8 (build_nested (subs @ [r]))"
    unfolding step using insert_path_shaped [OF sh] by (simp add: length_path_vals)
  moreover have "nest_at q (build_nested (subs @ [r])) =
        (if filter (\<lambda>r. path_vals r = q) (subs @ [r]) = [] then None
         else Some (map value_val (filter (\<lambda>r. path_vals r = q) (subs @ [r]))))"
    if "length q = 8" for q
    unfolding step
    using insert_path_lookup [OF sh, of q "value_val r"] look [OF that] that
    by (auto simp: length_path_vals)
  ultimately show ?case by blast
qed


text \<open>Rendering: sorting the items of a dictionary changes no lookup.\<close>

lemma map_of_sort_key:
  "distinct (map fst xs) \<Longrightarrow> map_of (sort_key k xs) = map_of xs"
proof -
  assume d: "distinct (map fst xs)"
  then have "distinct (map fst (sort_key k xs))" by (simp add: distinct_map_sort_key)
  from map_of_inject_set [OF this d] show ?thesis by simp
qed

lemma map_of_rendered_items:
  "map_of (map (\<lambda>item. (fst item, f (snd item))) items) k = map_option f (map_of items k)"
  by (induction items) auto

lemma to_sorted_dict_lookup:
  assumes "distinct (map fst items)"
  shows "map_of (sort_key (\<lambda>item. item_sort_key (fst item))
            (map (\<lambda>item. (fst item, to_sorted_dict (snd item))) items)) k
       = map_option to_sorted_dict (map_of items k)"
proof -
  have "map fst (map (\<lambda>item. (fst item, to_sorted_dict (snd item))) items) = map fst items"
    by simp
  with assms have "distinct (map fst (map (\<lambda>item. (fst item, to_sorted_dict (snd item))) items))"
    by (simp only:)
  then show ?thesis by (simp only: map_of_sort_key map_of_rendered_items)
qed

lemma leaf_at_to_sorted_dict:
  "shaped (length q) t \<Longrightarrow>
     leaf_at q (to_sorted_dict t) = map_option (\<lambda>xs. zip [0..<length xs] xs) (nest_at q t)"
proof (induction q arbitrary: t)
  case Nil
  then show ?case by (cases t) simp_all
next
  case (Cons k qs)
  from Cons.prems obtain items where t: "t = Node items" by (cases t) simp_all
  with Cons.prems have d: "distinct (map fst items)" by simp
  show ?case
  proof (cases "map_of items k")
    case None
    then show ?thesis by (simp add: t to_sorted_dict_lookup [OF d])
  next
    case (Some child)
    with Cons.prems have "shaped (length qs) child"
      using shaped_child [of "length qs" items k child] by (simp add: t)
    from Cons.IH [OF this] Some show ?thesis by (simp add: t to_sorted_dict_lookup [OF d])
  qed
qed

text \<open>Rendering: the keys of every dictionary come out in the order of \<open>key_before\<close>.\<close>

lemma item_sort_key_less: "item_sort_key a < item_sort_key b \<Longrightarrow> key_before a b"
  by (auto simp: item_sort_key_def key_before_def)

lemma inj_item_sort_key: "inj item_sort_key"
  by (auto simp: inj_on_def item_sort_key_def)

lemma sorted_keys_before:
  assumes "distinct (map fst xs)"
  shows "sorted_wrt key_before (map fst (sort_key (\<lambda>item. item_sort_key (fst item)) xs))"
proof -
  define ys where "ys = sort_key (\<lambda>item. item_sort_key (fst item)) xs"
  have "sorted (map (\<lambda>item. item_sort_key (fst item)) ys)"
    unfolding ys_def by (rule sorted_sort_key)
  then have s: "sorted (map item_sort_key (map fst ys))" by (simp add: o_def)
  from assms have "distinct (map fst ys)" by (simp add: ys_def distinct_map_sort_key)
  then have "distinct (map item_sort_key (map fst ys))"
    by (simp only: distinct_map) (metis inj_item_sort_key inj_on_subset subset_UNIV)
  with s have "sorted_wrt (<) (map item_sort_key (map fst ys))"
    by (simp add: strict_sorted_iff)
  then have "sorted_wrt (\<lambda>a b. item_sort_key a < item_sort_key b) (map fst ys)"
    by (simp add: sorted_wrt_map)
  then show ?thesis
    unfolding ys_def [symmetric] by (rule sorted_wrt_mono_rel [rotated]) (rule item_sort_key_less)
qed

lemma keys_ordered_to_sorted_dict: "shaped n t \<Longrightarrow> keys_ordered (to_sorted_dict t)"
proof (induction n arbitrary: t)
  case 0
  then show ?case by (cases t) simp_all
next
  case (Suc n)
  from Suc.prems obtain items where t: "t = Node items" by (cases t) simp_all
  with Suc.prems have d: "distinct (map fst items)"
    and kids: "\<And>item. item \<in> set items \<Longrightarrow> shaped n (snd item)"
    by (simp_all add: list_all_iff)
  define xs where "xs = map (\<lambda>item. (fst item, to_sorted_dict (snd item))) items"
  have "map fst xs = map fst items" by (simp add: xs_def)
  with d have "distinct (map fst xs)" by (simp only:)
  then have keys: "sorted_wrt key_before
      (map fst (sort_key (\<lambda>item. item_sort_key (fst item)) xs))"
    by (rule sorted_keys_before)
  have "keys_ordered (snd x)" if "x \<in> set xs" for x
    using that kids Suc.IH by (auto simp: xs_def)
  then have "list_all (\<lambda>item. keys_ordered (snd item))
      (sort_key (\<lambda>item. item_sort_key (fst item)) xs)"
    by (simp add: list_all_iff)
  with keys show ?case by (simp add: t xs_def)
qed

text \<open>
  C4: in the rendered tree, the index-keyed mapping under a path of eight keys has as
  many entries as there are surviving sub-records with these key components (it numbers
  their measurement values from 0, in the order of the sorted sub-records), a path that
  no surviving sub-record has leads to no mapping, and at every level the sibling keys
  stand in the order of their code points, the sentinel labels behind all other keys.
\<close>

theorem nested_leaves_and_key_order:
  "keys_ordered (main_quant fieldnames rows)
   \<and> (length path = 8 \<and> leaf_at path (main_quant fieldnames rows) = Some ixs \<longrightarrow>
        length ixs = length (filter (\<lambda>sub. path_vals sub = path) (surviving fieldnames rows)))
   \<and> (length path = 8 \<longrightarrow>
        leaf_at path (main_quant fieldnames rows) =
          (let values = map value_val (filter (\<lambda>sub. path_vals sub = path)
                          (sort_key date_sort_key (surviving fieldnames rows)))
           in if values = [] then None else Some (zip [0..<length values] values)))"
proof -
  define subs where "subs = sort_key date_sort_key (surviving fieldnames rows)"
  define t where "t = build_nested subs"
  have out: "main_quant fieldnames rows = to_sorted_dict t"
    by (simp add: main_quant_def t_def subs_def)
  from build_nested_lookup [of subs] have sh: "shaped 8 t"
    and look: "\<And>q. length q = 8 \<Longrightarrow> nest_at q t =
        (if filter (\<lambda>r. path_vals r = q) subs = [] then None
         else Some (map value_val (filter (\<lambda>r. path_vals r = q) subs)))"
    by (simp_all add: t_def)
  have ordered: "keys_ordered (main_quant fieldnames rows)"
    unfolding out using sh by (rule keys_ordered_to_sorted_dict)
  have leaf: "leaf_at q (main_quant fieldnames rows) =
      (let values = map value_val (filter (\<lambda>sub. path_vals sub = q) subs)
       in if values = [] then None else Some (zip [0..<length values] values))"
    if "length q = 8" for q
  proof -
    from that sh have "shaped (length q) t" by simp
    from leaf_at_to_sorted_dict [OF this] look [OF that] show ?thesis
      by (simp add: out Let_def)
  qed
  have count: "length (filter (\<lambda>sub. path_vals sub = q) subs)
      = length (filter (\<lambda>sub. path_vals sub = q) (surviving fieldnames rows))" for q
    by (simp add: subs_def filter_sort)
  have size: "length ixs = length (filter (\<lambda>sub. path_vals sub = path) (surviving fieldnames rows))"
    if "length path = 8" "leaf_at path (main_quant fieldnames rows) = Some ixs"
    using that leaf [OF that(1)] count [of path]
    by (auto simp: Let_def split: if_splits)
  from ordered size leaf show ?thesis unfolding subs_def by blast
qed


lemma expand_row_field:
  "expand_row meta_ok r n col =
     (if col \<in> set TARGET_BASE_NAMES
      then Some (strip (or_empty (get r (col @ '' '' @ str_slot n))))
      else if col = ''target'' then Some (str_slot n)
      else if col \<in> set meta_ok then Some (strip (or_empty (get r col)))
      else None)"
  by (simp add: expand_row_def Let_def foldl_update_lookup)

theorem nested_leaves_and_key_order_witness:
  "leaf_at [''(blank)'', ''(blank)'', ''Lake A'', ''(blank)'', ''(blank)'', ''N1'', ''(blank)'',
            ''2021-05-01'']
     (main_quant [''sample collection start date'', ''geo loc name (site)'']
        [[''sample collection start date'' \<mapsto> Some ''2021-05-01'',
          ''geo loc name (site)'' \<mapsto> Some ''Lake A [x]'',
          ''gene symbol 1'' \<mapsto> Some ''N1'',
          ''diagnostic measurement value 1'' \<mapsto> Some ''12.5''],
         [''sample collection start date'' \<mapsto> Some ''2021-05-01'',
          ''geo loc name (site)'' \<mapsto> Some ''Lake A'',
          ''gene symbol 1'' \<mapsto> Some ''N1'',
          ''diagnostic measurement value 1'' \<mapsto> Some ''7'']])
     = Some [(0, ''12.5''), (1, ''7'')]
   \<and> length (filter
         (\<lambda>sub. path_vals sub =
            [''(blank)'', ''(blank)'', ''Lake A'', ''(blank)'', ''(blank)'', ''N1'', ''(blank)'',
             ''2021-05-01''])
         (surviving [''sample collection start date'', ''geo loc name (site)'']
            [[''sample collection start date'' \<mapsto> Some ''2021-05-01'',
              ''geo loc name (site)'' \<mapsto> Some ''Lake A [x]'',
              ''gene symbol 1'' \<mapsto> Some ''N1'',
              ''diagnostic measurement value 1'' \<mapsto> Some ''12.5''],
             [''sample collection start date'' \<mapsto> Some ''2021-05-01'',
              ''geo loc name (site)'' \<mapsto> Some ''Lake A'',
              ''gene symbol 1'' \<mapsto> Some ''N1'',
              ''diagnostic measurement value 1'' \<mapsto> Some ''7'']])) = 2"
proof -
  define fields where "fields = [''sample collection start date'', ''geo loc name (site)'']"
  define r1 :: row where
    "r1 = [''sample collection start date'' \<mapsto> Some ''2021-05-01'',
           ''geo loc name (site)'' \<mapsto> Some ''Lake A [x]'',
           ''gene symbol 1'' \<mapsto> Some ''N1'',
           ''diagnostic measurement value 1'' \<mapsto> Some ''12.5'']"
  define r2 :: row where
    "r2 = [''sample collection start date'' \<mapsto> Some ''2021-05-01'',
           ''geo loc name (site)'' \<mapsto> Some ''Lake A'',
           ''gene symbol 1'' \<mapsto> Some ''N1'',
           ''diagnostic measurement value 1'' \<mapsto> Some ''7'']"
  define path where
    "path = [''(blank)'', ''(blank)'', ''Lake A'', ''(blank)'', ''(blank)'', ''N1'', ''(blank)'',
             ''2021-05-01'']"
  define meta where "meta = filter (\<lambda>c. c \<in> set fields) METADATA_COLUMNS"
  have meta_eq: "meta = [''sample collection start date'', ''geo loc name (site)'']"
    by (simp add: meta_def fields_def METADATA_COLUMNS_def)
  have strips: "strip ''2021-05-01'' = ''2021-05-01''" "strip ''Lake A [x]'' = ''Lake A [x]''"
    "strip ''Lake A '' = ''Lake A''" "strip ''Lake A'' = ''Lake A''" "strip ''N1'' = ''N1''"
    "strip ''12.5'' = ''12.5''" "strip ''7'' = ''7''" "strip [] = []"
    by (simp_all add: strip_def is_space_def)
  have target: "map (\<lambda>base. strip (or_empty (get r (base @ '' '' @ str_slot n)))) TARGET_BASE_NAMES
      = (if n = 1 then [[], [], ''N1'', [], v, [], []] else [[], [], [], [], [], [], []])"
    if "n \<in> {1, 2, 3}" "(r, v) \<in> {(r1, ''12.5''), (r2, ''7'')}" for n r v
    using that
    by (auto simp: TARGET_BASE_NAMES_def r1_def r2_def get_def or_empty_def str_slot_123 strips)
  have info: "has_target_info (expand_row meta r n) \<longleftrightarrow> n = 1"
    if "n \<in> {1, 2, 3}" "r \<in> {r1, r2}" for n r
  proof -
    from that(2) obtain v where rv: "(r, v) \<in> {(r1, ''12.5''), (r2, ''7'')}" by auto
    have "has_target_info (expand_row meta r n) \<longleftrightarrow>
        (\<exists>x\<in>set (map (\<lambda>base. strip (or_empty (get r (base @ '' '' @ str_slot n))))
              TARGET_BASE_NAMES). x \<noteq> [])"
      by (auto simp: has_target_info_expand_row)
    then show ?thesis unfolding target [OF that(1) rv] using rv by auto
  qed
  define s1 where "s1 = expand_row meta r1 1"
  define s2 where "s2 = expand_row meta r2 1"
  have sv: "surviving fields [r1, r2] = [s1, s2]"
    unfolding s1_def s2_def by (simp add: surviving_def expand_def meta_def [symmetric] info)
  have paths: "path_vals s1 = path" "path_vals s2 = path"
    unfolding s1_def s2_def
    by (simp_all add: path_vals_def NEST_ORDER_def DATE_COL_def expand_row_field
        TARGET_BASE_NAMES_def meta_eq r1_def r2_def get_def or_empty_def or_default_def
        str_slot_123 strips strip_brackets_def path_def)
  have vals: "value_val s1 = ''12.5''" "value_val s2 = ''7''"
    unfolding s1_def s2_def
    by (simp_all add: value_val_def VALUE_COL_def expand_row_field
        TARGET_BASE_NAMES_def meta_eq r1_def r2_def get_def or_empty_def or_default_def
        str_slot_123 strips strip_brackets_def)
  have dates: "date_sort_key s1 = (False, ''2021-05-01'')"
    "date_sort_key s2 = (False, ''2021-05-01'')"
    unfolding s1_def s2_def
    by (simp_all add: date_sort_key_def DATE_COL_def expand_row_field
        TARGET_BASE_NAMES_def meta_eq r1_def r2_def get_def or_empty_def strips Let_def)
  have sorted: "sort_key date_sort_key (surviving fields [r1, r2]) = [s1, s2]"
    by (simp add: sv dates)
  have len: "length path = 8" by (simp add: path_def)
  note props = nested_leaves_and_key_order [of fields "[r1, r2]" path]
  from props len have "leaf_at path (main_quant fields [r1, r2]) =
      (let values = map value_val (filter (\<lambda>sub. path_vals sub = path)
                      (sort_key date_sort_key (surviving fields [r1, r2])))
       in if values = [] then None else Some (zip [0..<length values] values))"
    by blast
  then have leaf: "leaf_at path (main_quant fields [r1, r2]) = Some [(0, ''12.5''), (1, ''7'')]"
    by (simp add: sorted paths vals upt_rec)
  from props len leaf
  have "length [(0::nat, ''12.5''), (1, ''7'')]
      = length (filter (\<lambda>sub. path_vals sub = path) (surviving fields [r1, r2]))"
    by blast
  with leaf show ?thesis unfolding fields_def r1_def r2_def path_def by simp
qed

end
